theory Spec2Isabelle
  imports Main "HOL-Library.Word" "HOL-Library.Signed_Division"
begin

unbundle bit_operations_syntax

section \<open>Data model\<close>

text \<open>
  The link layer of \<^verbatim>\<open>linklayer_mod.c\<close> with the constants of \<^verbatim>\<open>linklayer.h\<close>.
  A \<^verbatim>\<open>byte_t\<close> (unsigned char) is an 8-bit word. A C \<^verbatim>\<open>int\<close> is modelled as
  \<^typ>\<open>int\<close>: every sum the code forms is a sum of at most \<open>3 * MAX_BLK\<close> bytes plus two
  small numbers, far below \<open>2 ^ 31\<close>. The C remainder \<^verbatim>\<open>%\<close> truncates towards zero and
  is \<open>smod\<close>. A pointer together with its byte count (a data block, a frame) is a list
  of bytes whose length is the count.
\<close>

type_synonym byte_t = "8 word"

definition MAX_BLK :: int where "MAX_BLK = 200"
definition MOD_SEQNUM :: int where "MOD_SEQNUM = 16"
definition STARTBYTE :: byte_t where "STARTBYTE = 212"
definition ENDBYTE :: byte_t where "ENDBYTE = 204"
definition FRSPOS :: nat where "FRSPOS = 1"
definition SEQNUMPOS :: nat where "SEQNUMPOS = 2"
definition HEADERSIZE :: int where "HEADERSIZE = 3"
definition TRAILERSIZE :: int where "TRAILERSIZE = 2"
definition FRAMEGOOD :: int where "FRAMEGOOD = 1"
definition FRAMEBAD :: int where "FRAMEBAD = 0"
definition POSACK :: int where "POSACK = 1"
definition NEGACK :: int where "NEGACK = 26"
definition ACK_SIZE :: int where "ACK_SIZE = 5"
definition MAX_TRIES :: int where "MAX_TRIES = 5"
definition SUCCESS :: int where "SUCCESS = 0"
definition BADUSE :: int where "BADUSE = - 9"
definition FAILURE :: int where "FAILURE = - 12"
definition GIVEUP :: int where "GIVEUP = - 15"
definition SIMPLE :: int where "SIMPLE = 1"
definition FULL :: int where "FULL = 2"
definition MODULO :: int where "MODULO = 251"

lemmas ll_consts =
  MAX_BLK_def MOD_SEQNUM_def STARTBYTE_def ENDBYTE_def FRSPOS_def SEQNUMPOS_def
  HEADERSIZE_def TRAILERSIZE_def FRAMEGOOD_def FRAMEBAD_def POSACK_def NEGACK_def
  ACK_SIZE_def MAX_TRIES_def SUCCESS_def BADUSE_def FAILURE_def GIVEUP_def
  SIMPLE_def FULL_def MODULO_def

section \<open>Frames\<close>

text \<open>
  \<^verbatim>\<open>next\<close>: the sequence number after \<open>seq\<close>.
\<close>

definition "next" :: "int \<Rightarrow> int" where
  "next seq = (seq + 1) smod MOD_SEQNUM"

text \<open>
  \<^verbatim>\<open>buildDataFrame(frameTx, dataTx, nData, seq)\<close>: the bytes written to \<open>frameTx\<close>
  and the returned frame size. The loop over the data bytes copies each byte and adds
  it to the checksum, which starts from \<open>seq + frameSize\<close>.
\<close>

definition buildDataFrame :: "byte_t list \<Rightarrow> int \<Rightarrow> byte_t list \<times> int" where
  "buildDataFrame dataTx seq =
     (let nData = int (length dataTx);
          frameSize = HEADERSIZE + TRAILERSIZE + nData;
          checkSum0 = 0 + seq + frameSize;
          checkSum1 = fold (\<lambda>i acc. acc + uint (dataTx ! i)) [0..<nat nData] checkSum0;
          checkSum = checkSum1 smod MODULO
      in ([STARTBYTE, word_of_int frameSize, word_of_int seq]
            @ map (\<lambda>i. dataTx ! i) [0..<nat nData]
            @ [word_of_int checkSum, ENDBYTE],
          HEADERSIZE + nData + TRAILERSIZE))"

text \<open>
  \<^verbatim>\<open>checkFrame(frameRx, sizeFrame)\<close> on the \<open>sizeFrame\<close> bytes of a received frame.
  The function reads \<open>frameRx[sizeFrame-2]\<close> first, which lies before the array when
  \<open>sizeFrame < 2\<close>: that read has no defined result and is \<open>None\<close>. The checks are
  made in the order of the code: checksum, start marker, end marker.
\<close>

definition checkFrame :: "byte_t list \<Rightarrow> int option" where
  "checkFrame frameRx =
     (let sizeFrame = int (length frameRx) in
      if sizeFrame < 2 then None
      else
        let checkSum_Rx = uint (frameRx ! nat (sizeFrame - 2));
            checkSum_Lcl0 = fold (\<lambda>i acc. acc + uint (frameRx ! (nat (HEADERSIZE - 2) + i)))
                                 [0..<nat (sizeFrame - 3)] 0;
            checkSum_Lcl = checkSum_Lcl0 smod MODULO
        in Some (if checkSum_Lcl \<noteq> checkSum_Rx then FRAMEBAD
                 else if frameRx ! 0 \<noteq> STARTBYTE then FRAMEBAD
                 else if frameRx ! nat (sizeFrame - 1) \<noteq> ENDBYTE then FRAMEBAD
                 else FRAMEGOOD))"

text \<open>
  \<^verbatim>\<open>processFrame(frameRx, sizeFrame, dataRx, maxData, seqNum)\<close>: the returned count
  \<open>nRXdata\<close>, the bytes copied to \<open>dataRx[0..nRXdata-1]\<close> and the value stored in
  \<open>*seqNum\<close>. The sequence number is read from \<open>frameRx[SEQNUMPOS]\<close>, which is not a
  byte of the frame when \<open>sizeFrame < 3\<close>: \<open>None\<close>. The count is negative for a frame
  shorter than header and trailer; nothing is copied then.
\<close>

definition processFrame :: "byte_t list \<Rightarrow> int \<Rightarrow> (int \<times> byte_t list \<times> int) option" where
  "processFrame frameRx maxData =
     (let sizeFrame = int (length frameRx) in
      if sizeFrame < 3 then None
      else
        let seqNum = uint (frameRx ! SEQNUMPOS);
            nRXdata0 = sizeFrame - HEADERSIZE - TRAILERSIZE;
            nRXdata = (if nRXdata0 > maxData then maxData else nRXdata0);
            dataRx = map (\<lambda>i. frameRx ! (nat HEADERSIZE + i)) [0..<nat nRXdata]
        in Some (nRXdata, dataRx, seqNum))"

text \<open>
  The sum that \<open>checkFrame\<close> recomputes: the bytes from position 1 up to the byte before
  the checksum. In a frame of at least five bytes these are the frame-size byte, the
  sequence byte and the payload.
\<close>

definition frame_sum :: "byte_t list \<Rightarrow> int" where
  "frame_sum frameRx = sum_list (map uint (take (length frameRx - 3) (drop 1 frameRx)))"

text \<open>The sum of the bytes of a data block, as \<open>buildDataFrame\<close> adds them up.\<close>

definition block_sum :: "byte_t list \<Rightarrow> int" where
  "block_sum b = sum_list (map uint b)"

section \<open>Connection state and transport\<close>

text \<open>
  The static variables of the module, in one record. \<open>connectTime\<close> and \<open>timerRx\<close>
  hold clock readings and are left out. Two fields record the traffic with the physical
  layer: \<open>phySent\<close> is the list of byte sequences handed to \<^verbatim>\<open>PHY_send\<close>, in call
  order, and \<open>nGetFrame\<close> counts the calls of \<^verbatim>\<open>getFrame\<close>.
\<close>

record ll_state =
  seqNumTx :: int
  lastSeqRx :: int
  connected :: bool
  framesSent :: int
  acksSent :: int
  naksSent :: int
  acksRx :: int
  naksRx :: int
  badFrames :: int
  goodFrames :: int
  timeouts :: int
  phySent :: "byte_t list list"
  nGetFrame :: nat

text \<open>
  What \<^verbatim>\<open>getFrame\<close> hands back: a negative return value (\<open>RxFail\<close>), zero
  (\<open>RxTimeout\<close>: time limit or size limit reached), or the bytes of a frame, whose number
  is the return value. \<^verbatim>\<open>getFrame\<close> reads single bytes from the physical layer against
  the clock; that reading is not modelled, only its outcome. \<^verbatim>\<open>getFrame\<close> sets its byte
  count to 2 once it has read the start marker and the size byte, so a frame it returns
  has at least two bytes.
\<close>

datatype rx_result = RxFail | RxTimeout | RxFrame "byte_t list"

text \<open>
  The physical layer and the peer behind it are outside the module: \<open>PHY_send k bytes\<close>
  is the return value of the \<open>k\<close>-th call of \<^verbatim>\<open>PHY_send\<close> (counted from 0) when it
  is given \<open>bytes\<close>, \<open>getFrame k maxSize\<close> the outcome of the \<open>k\<close>-th call of
  \<^verbatim>\<open>getFrame\<close>, \<open>PHY_open\<close> and \<open>PHY_close\<close> the return values of the calls that open
  and close the port.
\<close>

record transport =
  PHY_send :: "nat \<Rightarrow> byte_t list \<Rightarrow> int"
  getFrame :: "nat \<Rightarrow> int \<Rightarrow> rx_result"
  PHY_open :: int
  PHY_close :: int

text \<open>
  The property of \<^verbatim>\<open>getFrame\<close> stated above, for a transport: every frame it returns
  has at least two bytes.
\<close>

definition getFrame_contract :: "transport \<Rightarrow> bool" where
  "getFrame_contract tr = (\<forall>k maxSize f. getFrame tr k maxSize = RxFrame f \<longrightarrow> 2 \<le> length f)"

text \<open>
  One pass through the body of a \<^verbatim>\<open>do ... while\<close> loop either leaves the function
  with a return code or reaches the loop test with the \<open>success\<close> flag.
\<close>

datatype step = Return int | Test bool

section \<open>Connecting and disconnecting\<close>

definition LL_connect :: "transport \<Rightarrow> ll_state \<Rightarrow> int \<times> ll_state" where
  "LL_connect tr st =
     (let retCode = PHY_open tr in
      if retCode = SUCCESS then
        (SUCCESS, st\<lparr>connected := True, seqNumTx := 0, lastSeqRx := - 1, framesSent := 0,
                      acksSent := 0, naksSent := 0, acksRx := 0, naksRx := 0, badFrames := 0,
                      goodFrames := 0, timeouts := 0\<rparr>)
      else (- retCode, st\<lparr>connected := False\<rparr>))"

definition LL_discon :: "transport \<Rightarrow> ll_state \<Rightarrow> int \<times> ll_state" where
  "LL_discon tr st =
     (let retCode = PHY_close tr;
          st1 = st\<lparr>connected := False\<rparr>
      in if retCode = SUCCESS then (SUCCESS, st1) else (- retCode, st1))"

section \<open>Acknowledgements\<close>

text \<open>
  \<^verbatim>\<open>sendAck(type, seq, debug)\<close>: builds the five bytes of the response in \<open>ackFrame\<close>,
  hands them to \<^verbatim>\<open>PHY_send\<close> and, when all five were sent, counts the response by its
  type.
\<close>

definition ackFrame :: "int \<Rightarrow> byte_t list" where
  "ackFrame seq =
     (let sizeAck = 5;
          checkSum = (0 + seq + sizeAck) smod MODULO
      in [STARTBYTE, word_of_int sizeAck, word_of_int seq, word_of_int checkSum, ENDBYTE])"

definition sendAck :: "transport \<Rightarrow> int \<Rightarrow> int \<Rightarrow> ll_state \<Rightarrow> int \<times> ll_state" where
  "sendAck tr type seq st =
     (let sizeAck = 5;
          retVal = PHY_send tr (length (phySent st)) (ackFrame seq);
          st1 = st\<lparr>phySent := phySent st @ [ackFrame seq]\<rparr>
      in if retVal \<noteq> sizeAck then (FAILURE, st1)
         else (SUCCESS,
               if type = POSACK then st1\<lparr>acksSent := acksSent st1 + 1\<rparr>
               else if type = NEGACK then st1\<lparr>naksSent := naksSent st1 + 1\<rparr>
               else st1))"

section \<open>Sending a block\<close>

text \<open>
  The body of the loop of \<^verbatim>\<open>LL_send\<close>: send the frame, and unless in simple mode wait
  for a response and classify it.
\<close>

definition send_body :: "transport \<Rightarrow> byte_t list \<Rightarrow> int \<Rightarrow> int \<Rightarrow> ll_state
    \<Rightarrow> (step \<times> ll_state) option" where
  "send_body tr frameTx sizeTXframe debug st =
     (let retVal = PHY_send tr (length (phySent st)) (take (nat sizeTXframe) frameTx);
          st1 = st\<lparr>phySent := phySent st @ [take (nat sizeTXframe) frameTx]\<rparr>
      in if retVal \<noteq> sizeTXframe then Some (Return FAILURE, st1)
         else
           let st2 = st1\<lparr>framesSent := framesSent st1 + 1\<rparr> in
           if debug = SIMPLE then Some (Test True, st2)
           else
             let st3 = st2\<lparr>nGetFrame := nGetFrame st2 + 1\<rparr> in
             case getFrame tr (nGetFrame st2) (2 * ACK_SIZE) of
               RxFail \<Rightarrow> Some (Return FAILURE, st3)
             | RxTimeout \<Rightarrow> Some (Test False, st3\<lparr>timeouts := timeouts st3 + 1\<rparr>)
             | RxFrame frameAck \<Rightarrow>
                 (case checkFrame frameAck of
                    None \<Rightarrow> None
                  | Some chk \<Rightarrow>
                      if chk = FRAMEGOOD then
                        let st4 = st3\<lparr>goodFrames := goodFrames st3 + 1\<rparr>;
                            seqAck = uint (frameAck ! SEQNUMPOS)
                        in if seqAck = seqNumTx st4
                           then Some (Test True, st4\<lparr>acksRx := acksRx st4 + 1\<rparr>)
                           else Some (Test False, st4\<lparr>naksRx := naksRx st4 + 1\<rparr>)
                      else Some (Test False, st3\<lparr>badFrames := badFrames st3 + 1\<rparr>)))"

text \<open>
  The loop of \<^verbatim>\<open>LL_send\<close>. \<open>attempts\<close> is the value of the counter before the pass;
  the body increments it once, after a successful \<^verbatim>\<open>PHY_send\<close>, so the loop test
  \<^verbatim>\<open>(success == FALSE) && (attempts < MAX_TRIES)\<close> sees \<open>attempts + 1\<close>.
\<close>

function send_loop :: "transport \<Rightarrow> byte_t list \<Rightarrow> int \<Rightarrow> int \<Rightarrow> ll_state \<Rightarrow> int
    \<Rightarrow> (step \<times> ll_state) option" where
  "send_loop tr frameTx sizeTXframe debug st attempts =
     (case send_body tr frameTx sizeTXframe debug st of
        None \<Rightarrow> None
      | Some (Return c, st') \<Rightarrow> Some (Return c, st')
      | Some (Test success, st') \<Rightarrow>
          if \<not> success \<and> attempts + 1 < MAX_TRIES
          then send_loop tr frameTx sizeTXframe debug st' (attempts + 1)
          else Some (Test success, st'))"
  by pat_completeness auto
termination
  by (relation "measure (\<lambda>(tr, frameTx, sizeTXframe, debug, st, attempts). nat (MAX_TRIES - attempts))")
     auto

definition LL_send :: "transport \<Rightarrow> byte_t list \<Rightarrow> int \<Rightarrow> ll_state \<Rightarrow> (int \<times> ll_state) option" where
  "LL_send tr dataTx debug st =
     (let nTXdata = int (length dataTx) in
      if \<not> connected st then Some (BADUSE, st)
      else if nTXdata > MAX_BLK then Some (BADUSE, st)
      else
        let (frameTx, sizeTXframe) = buildDataFrame dataTx (seqNumTx st) in
        case send_loop tr frameTx sizeTXframe debug st 0 of
          None \<Rightarrow> None
        | Some (Return c, st') \<Rightarrow> Some (c, st')
        | Some (Test success, st') \<Rightarrow>
            if success then Some (SUCCESS, st'\<lparr>seqNumTx := next (seqNumTx st')\<rparr>)
            else Some (GIVEUP, st'))"

section \<open>Receiving a block\<close>

text \<open>
  The body of the loop of \<^verbatim>\<open>LL_receive\<close>. Besides the module state it carries the
  local \<open>nRXdata\<close> and the bytes that the latest write has put at the start of the
  caller's array \<open>dataRx\<close> (the \<open>nRXdata\<close> bytes copied by \<^verbatim>\<open>processFrame\<close>, or the ten
  dummy bytes of simple mode). \<^verbatim>\<open>processFrame\<close> is called for every frame that passed
  the check, before the sequence number is looked at. \<open>expected\<close> is computed once,
  before the loop. The return values of \<^verbatim>\<open>sendAck\<close> are ignored, as in the code.
\<close>

definition receive_body :: "transport \<Rightarrow> int \<Rightarrow> int \<Rightarrow> int \<Rightarrow> ll_state \<Rightarrow> int \<Rightarrow> byte_t list
    \<Rightarrow> (step \<times> ll_state \<times> int \<times> byte_t list) option" where
  "receive_body tr maxData debug expected st nRXdata dataRx =
     (let st1 = st\<lparr>nGetFrame := nGetFrame st + 1\<rparr> in
      case getFrame tr (nGetFrame st) (3 * MAX_BLK) of
        RxFail \<Rightarrow> Some (Return FAILURE, st1, nRXdata, dataRx)
      | RxTimeout \<Rightarrow> Some (Test False, st1\<lparr>timeouts := timeouts st1 + 1\<rparr>, nRXdata, dataRx)
      | RxFrame frameRx \<Rightarrow>
          (case checkFrame frameRx of
             None \<Rightarrow> None
           | Some chk \<Rightarrow>
               if chk = FRAMEBAD then
                 let st2 = st1\<lparr>badFrames := badFrames st1 + 1\<rparr> in
                 if debug = SIMPLE then Some (Test True, st2, 10, replicate 10 35)
                 else Some (Test False, st2, nRXdata, dataRx)
               else
                 let st2 = st1\<lparr>goodFrames := goodFrames st1 + 1\<rparr> in
                 case processFrame frameRx maxData of
                   None \<Rightarrow> None
                 | Some (nRXdata', dataRx', seqNumRx) \<Rightarrow>
                     if debug = SIMPLE then Some (Test True, st2, nRXdata', dataRx')
                     else if seqNumRx = expected then
                       Some (Test True,
                             snd (sendAck tr POSACK seqNumRx (st2\<lparr>lastSeqRx := seqNumRx\<rparr>)),
                             nRXdata', dataRx')
                     else if seqNumRx = lastSeqRx st2 then
                       Some (Test True,
                             snd (sendAck tr POSACK seqNumRx (st2\<lparr>lastSeqRx := seqNumRx\<rparr>)),
                             nRXdata', dataRx')
                     else
                       Some (Test False,
                             snd (sendAck tr POSACK (lastSeqRx st2) st2),
                             nRXdata', dataRx')))"

text \<open>
  The loop of \<^verbatim>\<open>LL_receive\<close>, with \<open>attempts\<close> as in \<open>send_loop\<close>: the body increments
  the counter once, after \<^verbatim>\<open>getFrame\<close> has returned without failure.
\<close>

function receive_loop :: "transport \<Rightarrow> int \<Rightarrow> int \<Rightarrow> int \<Rightarrow> ll_state \<Rightarrow> int \<Rightarrow> byte_t list
    \<Rightarrow> int \<Rightarrow> (step \<times> ll_state \<times> int \<times> byte_t list) option" where
  "receive_loop tr maxData debug expected st nRXdata dataRx attempts =
     (case receive_body tr maxData debug expected st nRXdata dataRx of
        None \<Rightarrow> None
      | Some (Return c, r) \<Rightarrow> Some (Return c, r)
      | Some (Test success, st', nRXdata', dataRx') \<Rightarrow>
          if \<not> success \<and> attempts + 1 < MAX_TRIES
          then receive_loop tr maxData debug expected st' nRXdata' dataRx' (attempts + 1)
          else Some (Test success, st', nRXdata', dataRx'))"
  by pat_completeness auto
termination
  by (relation "measure (\<lambda>(tr, maxData, debug, expected, st, nRXdata, dataRx, attempts).
                           nat (MAX_TRIES - attempts))")
     auto

text \<open>
  \<^verbatim>\<open>LL_receive(dataRx, maxData, debug)\<close>: the return value, the bytes written to the
  start of \<open>dataRx\<close> (none yet when the call begins) and the new state.
\<close>

definition LL_receive :: "transport \<Rightarrow> int \<Rightarrow> int \<Rightarrow> ll_state
    \<Rightarrow> (int \<times> byte_t list \<times> ll_state) option" where
  "LL_receive tr maxData debug st =
     (let expected = next (lastSeqRx st) in
      if \<not> connected st then Some (BADUSE, [], st)
      else
        case receive_loop tr maxData debug expected st 0 [] 0 of
          None \<Rightarrow> None
        | Some (Return c, st', nRXdata, dataRx) \<Rightarrow> Some (c, dataRx, st')
        | Some (Test success, st', nRXdata, dataRx) \<Rightarrow>
            if success then Some (nRXdata, dataRx, st')
            else Some (GIVEUP, dataRx, st'))"

declare send_loop.simps [simp del] receive_loop.simps [simp del]

section \<open>Sequences of calls\<close>

text \<open>
  Consecutive calls of \<open>LL_send\<close>, one for each pair of a block and a debug value, as
  the file sender makes them; the return codes are collected in call order.
\<close>

fun LL_send_all :: "transport \<Rightarrow> (byte_t list \<times> int) list \<Rightarrow> ll_state
    \<Rightarrow> (int list \<times> ll_state) option" where
  "LL_send_all tr [] st = Some ([], st)"
| "LL_send_all tr ((dataTx, debug) # calls) st =
     (case LL_send tr dataTx debug st of
        None \<Rightarrow> None
      | Some (r, st') \<Rightarrow>
          (case LL_send_all tr calls st' of
             None \<Rightarrow> None
           | Some (rs, st'') \<Rightarrow> Some (r # rs, st'')))"

text \<open>
  The calls an application can make on the module, and a run of such calls from a state.
\<close>

datatype ll_call =
    Connect
  | Discon
  | Send "byte_t list" int
  | Receive int int

fun do_call :: "transport \<Rightarrow> ll_call \<Rightarrow> ll_state \<Rightarrow> ll_state option" where
  "do_call tr Connect st = Some (snd (LL_connect tr st))"
| "do_call tr Discon st = Some (snd (LL_discon tr st))"
| "do_call tr (Send dataTx debug) st = map_option snd (LL_send tr dataTx debug st)"
| "do_call tr (Receive maxData debug) st =
     map_option (\<lambda>(r, dataRx, st'). st') (LL_receive tr maxData debug st)"

fun ll_run :: "transport \<Rightarrow> ll_call list \<Rightarrow> ll_state \<Rightarrow> ll_state option" where
  "ll_run tr [] st = Some st"
| "ll_run tr (c # cs) st =
     (case do_call tr c st of None \<Rightarrow> None | Some st' \<Rightarrow> ll_run tr cs st')"

section \<open>Example states and transports\<close>

text \<open>The static variables when the program starts: not connected, all counters zero.\<close>

definition start_state :: ll_state where
  "start_state = \<lparr>seqNumTx = 0, lastSeqRx = 0, connected = False, framesSent = 0,
     acksSent = 0, naksSent = 0, acksRx = 0, naksRx = 0, badFrames = 0, goodFrames = 0,
     timeouts = 0, phySent = [], nGetFrame = 0\<rparr>"

text \<open>The state that a successful \<open>LL_connect\<close> leaves at program start.\<close>

definition connected_state :: ll_state where
  "connected_state = start_state\<lparr>connected := True, lastSeqRx := - 1\<rparr>"

text \<open>
  A transport whose port opens and closes, whose \<open>PHY_send\<close> takes every byte, and whose
  calls of \<open>getFrame\<close> return the entries of a script in turn and time out after it.
\<close>

definition scripted :: "rx_result list \<Rightarrow> transport" where
  "scripted rs =
     \<lparr>PHY_send = (\<lambda>k bytes. int (length bytes)),
      getFrame = (\<lambda>k maxSize. if k < length rs then rs ! k else RxTimeout),
      PHY_open = 0, PHY_close = 0\<rparr>"

section \<open>Frame codec lemmas\<close>

lemma fold_add_sum_list:
  "fold (\<lambda>i acc. acc + f i) xs (a::int) = a + sum_list (map f xs)"
  by (induction xs arbitrary: a) simp_all

lemma map_nth_shift:
  "n + k \<le> length xs \<Longrightarrow> map (\<lambda>i. xs ! (k + i)) [0..<n] = take n (drop k xs)"
  by (rule nth_equalityI) auto

lemma smod_nonneg: "0 \<le> (k::int) \<Longrightarrow> 0 < l \<Longrightarrow> k smod l = k mod l"
  by (simp add: signed_modulo_int_def sgn_if)

lemma sum_list_uint_nonneg: "0 \<le> sum_list (map uint (xs :: byte_t list))"
  by (induction xs) simp_all

lemma checkFrame_eq:
  assumes "2 \<le> length frameRx"
  shows "checkFrame frameRx =
           Some (if frame_sum frameRx mod 251 = uint (frameRx ! (length frameRx - 2))
                    \<and> frameRx ! 0 = 212 \<and> frameRx ! (length frameRx - 1) = 204
                 then FRAMEGOOD else FRAMEBAD)"
proof -
  let ?n = "length frameRx"
  have idx: "nat (int ?n - 2) = ?n - 2" "nat (int ?n - 1) = ?n - 1" "nat (int ?n - 3) = ?n - 3"
    by simp_all
  have "(?n - 3) + 1 \<le> ?n" using assms by simp
  then have m: "map (\<lambda>i. frameRx ! (1 + i)) [0..<?n - 3] = take (?n - 3) (drop 1 frameRx)"
    by (rule map_nth_shift)
  have "map (\<lambda>i. uint (frameRx ! (1 + i))) [0..<?n - 3]
          = map uint (map (\<lambda>i. frameRx ! (1 + i)) [0..<?n - 3])"
    by (simp add: comp_def)
  with m have "sum_list (map (\<lambda>i. uint (frameRx ! (1 + i))) [0..<?n - 3]) = frame_sum frameRx"
    by (simp add: frame_sum_def)
  then have s: "sum_list (map (\<lambda>i. uint (frameRx ! Suc i)) [0..<?n - 3]) = frame_sum frameRx"
    by simp
  have nn: "0 \<le> frame_sum frameRx"
    unfolding frame_sum_def by (rule sum_list_uint_nonneg)
  show ?thesis
    using assms nn
    by (simp add: checkFrame_def Let_def idx fold_add_sum_list s smod_nonneg
        HEADERSIZE_def MODULO_def STARTBYTE_def ENDBYTE_def)
qed

lemma checkFrame_good_length:
  assumes "checkFrame frameRx = Some FRAMEGOOD"
  shows "3 \<le> length frameRx"
proof (rule ccontr)
  assume "\<not> 3 \<le> length frameRx"
  moreover have "2 \<le> length frameRx"
    using assms by (simp add: checkFrame_def Let_def split: if_splits)
  ultimately have l: "length frameRx = 2" by simp
  then have "frame_sum frameRx = 0" by (simp add: frame_sum_def)
  with checkFrame_eq [of frameRx] l assms show False
    by (simp add: FRAMEGOOD_def FRAMEBAD_def split: if_splits)
qed

lemma processFrame_good:
  assumes "checkFrame frameRx = Some FRAMEGOOD"
  shows "\<exists>nRXdata' dataRx'.
           processFrame frameRx maxData = Some (nRXdata', dataRx', uint (frameRx ! SEQNUMPOS))"
  using checkFrame_good_length [OF assms] by (simp add: processFrame_def Let_def)

lemma block_sum_nonneg: "0 \<le> block_sum b"
  unfolding block_sum_def by (rule sum_list_uint_nonneg)

lemma buildDataFrame_eq:
  "buildDataFrame b s =
     (STARTBYTE # word_of_int (5 + int (length b)) # word_of_int s
        # b @ [word_of_int ((s + (5 + int (length b)) + block_sum b) smod 251), ENDBYTE],
      5 + int (length b))"
proof -
  have "map (\<lambda>i. uint (b ! i)) [0..<length b] = map uint (map (\<lambda>i. b ! i) [0..<length b])"
    by (simp add: comp_def)
  then have "sum_list (map (\<lambda>i. uint (b ! i)) [0..<length b]) = block_sum b"
    by (simp add: map_nth block_sum_def)
  then show ?thesis
    by (simp add: buildDataFrame_def Let_def fold_add_sum_list map_nth
        HEADERSIZE_def TRAILERSIZE_def MODULO_def add_ac)
qed

lemma uint_byte_of_int: "0 \<le> k \<Longrightarrow> k < 256 \<Longrightarrow> uint (word_of_int k :: byte_t) = k"
  by (simp add: uint_word_of_int take_bit_eq_mod)

lemma frame_sum_built:
  "frame_sum (a # x # y # b @ [c, e]) = uint x + uint y + block_sum b"
  by (simp add: frame_sum_def block_sum_def)

lemma built_nth:
  "(a # x # y # b @ [c, e]) ! (length b + 3) = c"
  "(a # x # y # b @ [c, e]) ! (length b + 4) = e"
  by (simp_all add: nth_append)

lemma checkFrame_shape:
  "checkFrame (a # x # y # b @ [c, e]) =
     Some (if (uint x + uint y + block_sum b) mod 251 = uint c \<and> a = 212 \<and> e = 204
           then FRAMEGOOD else FRAMEBAD)"
proof -
  let ?fr = "a # x # y # b @ [c, e]"
  have "2 \<le> length ?fr" by simp
  then have "checkFrame ?fr = Some (if frame_sum ?fr mod 251 = uint (?fr ! (length ?fr - 2))
                    \<and> ?fr ! 0 = 212 \<and> ?fr ! (length ?fr - 1) = 204
                 then FRAMEGOOD else FRAMEBAD)"
    by (rule checkFrame_eq)
  moreover have "?fr ! (length ?fr - 2) = c"
    using built_nth(1) [of a x y b c e] by simp
  moreover have "?fr ! (length ?fr - 1) = e"
    using built_nth(2) [of a x y b c e] by simp
  moreover have "?fr ! 0 = a" by simp
  ultimately show ?thesis
    by (simp only: frame_sum_built)
qed

lemma processFrame_shape:
  assumes "int (length b) \<le> maxData"
  shows "processFrame (a # x # y # b @ [c, e]) maxData = Some (int (length b), b, uint y)"
proof -
  let ?fr = "a # x # y # b @ [c, e]"
  have "map (\<lambda>i. ?fr ! (3 + i)) [0..<length b] = b"
    by (rule nth_equalityI) (simp_all add: nth_append)
  then show ?thesis
    using assms by (simp add: processFrame_def Let_def HEADERSIZE_def TRAILERSIZE_def
        SEQNUMPOS_def)
qed

lemma buildDataFrame_codec:
  assumes "int (length b) \<le> MAX_BLK" and "0 \<le> s" and "s < MOD_SEQNUM"
    and "int (length b) \<le> maxData"
  shows "checkFrame (fst (buildDataFrame b s)) = Some FRAMEGOOD
       \<and> snd (buildDataFrame b s) = int (length (fst (buildDataFrame b s)))
       \<and> processFrame (fst (buildDataFrame b s)) maxData = Some (int (length b), b, s)"
proof -
  let ?n = "int (length b)"
  define x :: byte_t where "x = word_of_int (5 + ?n)"
  define y :: byte_t where "y = word_of_int s"
  define c :: byte_t where "c = word_of_int ((s + (5 + ?n) + block_sum b) smod 251)"
  let ?fr = "STARTBYTE # x # y # b @ [c, ENDBYTE]"
  have fr: "fst (buildDataFrame b s) = ?fr" and sz: "snd (buildDataFrame b s) = 5 + ?n"
    unfolding x_def y_def c_def by (simp_all only: buildDataFrame_eq fst_conv snd_conv)
  have ux: "uint x = 5 + ?n"
    unfolding x_def using assms(1) by (intro uint_byte_of_int) (simp_all add: MAX_BLK_def)
  have uy: "uint y = s"
    unfolding y_def using assms(2,3) by (intro uint_byte_of_int) (simp_all add: MOD_SEQNUM_def)
  have tot: "0 \<le> s + (5 + ?n) + block_sum b"
    using assms(2) block_sum_nonneg [of b] by simp
  then have m: "(s + (5 + ?n) + block_sum b) smod 251 = (s + (5 + ?n) + block_sum b) mod 251"
    by (simp add: smod_nonneg)
  have "uint c = (s + (5 + ?n) + block_sum b) mod 251"
    unfolding c_def m by (intro uint_byte_of_int) simp_all
  then have chk: "checkFrame ?fr = Some FRAMEGOOD"
    by (simp add: checkFrame_shape ux uy STARTBYTE_def ENDBYTE_def add_ac)
  have prc: "processFrame ?fr maxData = Some (?n, b, s)"
    using assms(4) by (simp add: processFrame_shape uy)
  show ?thesis
    unfolding fr sz using chk prc by simp
qed

section \<open>Round trip of a data frame\<close>

text \<open>
  C2. For every block \<open>b\<close> of at most \<open>MAX_BLK\<close> bytes and every sequence number \<open>s\<close>
  with \<open>0 \<le> s < MOD_SEQNUM\<close>, the frame that \<open>buildDataFrame\<close> builds (whose length is
  the size it returns) passes \<open>checkFrame\<close> with \<open>FRAMEGOOD\<close>, and \<open>processFrame\<close> with
  \<open>maxData\<close> at least the length of \<open>b\<close> extracts exactly the payload \<open>b\<close> and the
  sequence number \<open>s\<close>.
\<close>

theorem buildDataFrame_roundtrip:
  assumes "int (length b) \<le> MAX_BLK" and "0 \<le> s" and "s < MOD_SEQNUM"
    and "int (length b) \<le> maxData"
  shows "checkFrame (fst (buildDataFrame b s)) = Some FRAMEGOOD
       \<and> snd (buildDataFrame b s) = int (length (fst (buildDataFrame b s)))
       \<and> processFrame (fst (buildDataFrame b s)) maxData = Some (int (length b), b, s)"
  using assms by (rule buildDataFrame_codec)

theorem buildDataFrame_roundtrip_witness:
  "int (length [1, 2, 3 :: byte_t]) \<le> MAX_BLK \<and> (0::int) \<le> 7 \<and> 7 < MOD_SEQNUM \<and> int (length [1, 2, 3 :: byte_t]) \<le> 16
   \<and> fst (buildDataFrame [1, 2, 3] 7) = [212, 8, 7, 1, 2, 3, 21, 204]
   \<and> checkFrame [212, 8, 7, 1, 2, 3, 21, 204] = Some FRAMEGOOD
   \<and> processFrame [212, 8, 7, 1, 2, 3, 21, 204] 16 = Some (3, [1, 2, 3], 7)"
proof -
  have h: "int (length [1, 2, 3 :: byte_t]) \<le> MAX_BLK" "(0::int) \<le> 7" "7 < MOD_SEQNUM"
     "int (length [1, 2, 3 :: byte_t]) \<le> 16"
    by (simp_all add: MAX_BLK_def MOD_SEQNUM_def)
  have e: "fst (buildDataFrame [1, 2, 3] 7) = [212, 8, 7, 1, 2, 3, 21, 204]"
    by (simp add: buildDataFrame_eq block_sum_def STARTBYTE_def ENDBYTE_def signed_modulo_int_def)
  show ?thesis
    using h e buildDataFrame_roundtrip [OF h] by simp
qed

lemma uint_flip_bit:
  fixes x :: byte_t
  assumes "k < 8"
  shows "uint (flip_bit k x) = (if bit x k then uint x - 2 ^ k else uint x + 2 ^ k)"
proof -
  have "uint (flip_bit k x) = flip_bit k (uint x)"
    using assms by (intro bit_eqI) (auto simp add: bit_flip_bit_iff bit_uint_iff)
  also have "\<dots> = (if bit x k then uint x - 2 ^ k else uint x + 2 ^ k)"
    using assms by (simp add: flip_bit_eq_if set_bit_eq unset_bit_eq bit_uint_iff)
  finally show ?thesis .
qed

lemma pow2_not_dvd:
  assumes "k < 8"
  shows "\<not> (251::int) dvd 2 ^ k"
proof -
  have "(2::int) ^ k \<le> 2 ^ 7" using assms by (intro power_increasing) simp_all
  then have "(2::int) ^ k < 251" by simp
  moreover have "(0::int) < 2 ^ k" by simp
  ultimately show ?thesis by (intro zdvd_not_zless)
qed

lemma flip_changes_residue:
  fixes x :: byte_t
  assumes "k < 8"
  shows "(S - uint x + uint (flip_bit k x)) mod 251 \<noteq> S mod 251"
proof
  assume "(S - uint x + uint (flip_bit k x)) mod 251 = S mod 251"
  then have "(251::int) dvd (S - uint x + uint (flip_bit k x)) - S"
    by (simp add: mod_eq_dvd_iff)
  then have "(251::int) dvd 2 ^ k \<or> (251::int) dvd - (2 ^ k)"
    by (simp add: uint_flip_bit [OF assms] split: if_splits)
  then show False
    using pow2_not_dvd [OF assms] by simp
qed

lemma sum_list_upd:
  "j < length xs \<Longrightarrow>
     sum_list (map f (xs[j := y])) = sum_list (map f xs) - f (xs ! j) + (f y :: int)"
  by (induction xs arbitrary: j) (auto split: nat.splits)

lemma frame_sum_update:
  assumes "1 \<le> j" and "j + 2 < length fr"
  shows "frame_sum (fr[j := y]) = frame_sum fr - uint (fr ! j) + uint y"
proof -
  let ?m = "length fr - 3"
  have "take ?m (drop 1 (fr[j := y])) = (take ?m (drop 1 fr))[j - 1 := y]"
    using assms by (simp add: drop_update_swap take_update_swap)
  moreover have "j - 1 < length (take ?m (drop 1 fr))"
    using assms by simp
  moreover have "take ?m (drop 1 fr) ! (j - 1) = fr ! j"
    using assms by simp
  ultimately show ?thesis
    by (simp add: frame_sum_def sum_list_upd)
qed

section \<open>Checksum sensitivity\<close>

text \<open>
  C3. Take the frame that \<open>buildDataFrame\<close> builds for a block \<open>b\<close> of at most \<open>MAX_BLK\<close>
  bytes and a sequence number \<open>s\<close> with \<open>0 \<le> s < MOD_SEQNUM\<close>. Flipping any single bit
  \<open>k < 8\<close> of the byte at any position \<open>j\<close> from 1 to \<open>length b + 2\<close> (the frame-size
  byte, the sequence byte or a payload byte) gives a byte sequence that \<open>checkFrame\<close>
  classifies as \<open>FRAMEBAD\<close>.
\<close>

theorem bit_flip_detected:
  assumes "int (length b) \<le> MAX_BLK" and "0 \<le> s" and "s < MOD_SEQNUM"
    and "1 \<le> j" and "j < length b + 3" and "k < 8"
  shows "checkFrame ((fst (buildDataFrame b s))[j := flip_bit k (fst (buildDataFrame b s) ! j)])
           = Some FRAMEBAD"
proof -
  let ?fr = "fst (buildDataFrame b s)"
  let ?fr' = "?fr[j := flip_bit k (?fr ! j)]"
  have len: "length ?fr = length b + 5"
    by (simp add: buildDataFrame_eq)
  have "checkFrame ?fr = Some FRAMEGOOD"
    using buildDataFrame_codec [OF assms(1-3), of "int (length b)"] by simp
  moreover have "checkFrame ?fr = Some (if frame_sum ?fr mod 251 = uint (?fr ! (length ?fr - 2))
                    \<and> ?fr ! 0 = 212 \<and> ?fr ! (length ?fr - 1) = 204
                 then FRAMEGOOD else FRAMEBAD)"
    by (rule checkFrame_eq) (simp add: len)
  ultimately have good: "frame_sum ?fr mod 251 = uint (?fr ! (length ?fr - 2))"
    by (simp add: FRAMEGOOD_def FRAMEBAD_def split: if_splits)
  have fs: "frame_sum ?fr' = frame_sum ?fr - uint (?fr ! j) + uint (flip_bit k (?fr ! j))"
    using assms(4,5) by (intro frame_sum_update) (simp_all add: len)
  have same: "?fr' ! (length ?fr' - 2) = ?fr ! (length ?fr - 2)"
    using assms(5) by (simp add: len)
  have "frame_sum ?fr' mod 251 \<noteq> uint (?fr' ! (length ?fr' - 2))"
    unfolding fs same good [symmetric] using assms(6) by (rule flip_changes_residue)
  moreover have "checkFrame ?fr' = Some (if frame_sum ?fr' mod 251 = uint (?fr' ! (length ?fr' - 2))
                    \<and> ?fr' ! 0 = 212 \<and> ?fr' ! (length ?fr' - 1) = 204
                 then FRAMEGOOD else FRAMEBAD)"
    by (rule checkFrame_eq) (simp add: len)
  ultimately show ?thesis by simp
qed


theorem bit_flip_detected_witness:
  "int (length [1, 2, 3 :: byte_t]) \<le> MAX_BLK \<and> (0::int) \<le> 7 \<and> 7 < MOD_SEQNUM
   \<and> (1::nat) \<le> 4 \<and> 4 < length [1, 2, 3 :: byte_t] + 3 \<and> (0::nat) < 8
   \<and> fst (buildDataFrame [1, 2, 3] 7) = [212, 8, 7, 1, 2, 3, 21, 204]
   \<and> checkFrame [212, 8, 7, 1, 3, 3, 21, 204] = Some FRAMEBAD"
proof -
  have h: "int (length [1, 2, 3 :: byte_t]) \<le> MAX_BLK" "(0::int) \<le> 7" "7 < MOD_SEQNUM"
     "(1::nat) \<le> 4" "4 < length [1, 2, 3 :: byte_t] + 3" "(0::nat) < 8"
    by (simp_all add: MAX_BLK_def MOD_SEQNUM_def)
  have e: "fst (buildDataFrame [1, 2, 3] 7) = [212, 8, 7, 1, 2, 3, 21, 204]"
    by (simp add: buildDataFrame_eq block_sum_def STARTBYTE_def ENDBYTE_def signed_modulo_int_def)
  have f: "flip_bit 0 (2 :: byte_t) = 3"
    by (simp add: flip_bit_eq_xor)
  show ?thesis
    using h e bit_flip_detected [OF h] by (simp add: f)
qed

section \<open>What checkFrame accepts\<close>

lemma frame_sum_parts:
  assumes "5 \<le> length f"
  shows "frame_sum f = uint (f ! 1) + uint (f ! 2) + block_sum (take (length f - 5) (drop 3 f))"
proof -
  obtain a f1 where f: "f = a # f1" using assms by (cases f) auto
  obtain x f2 where f1: "f1 = x # f2" using assms f by (cases f1) auto
  obtain y r where f2: "f2 = y # r" using assms f f1 by (cases f2) auto
  have r: "2 \<le> length r" using assms f f1 f2 by simp
  then obtain k where k: "length r = Suc (Suc k)"
    by (metis Suc_le_D numeral_2_eq_2 Suc_le_mono)
  have "take (length f - 3) (drop 1 f) = x # y # take k r"
    by (simp add: f f1 f2 k)
  moreover have "take (length f - 5) (drop 3 f) = take k r"
    by (simp add: f f1 f2 k)
  moreover have "f ! 1 = x" "f ! 2 = y"
    by (simp_all add: f f1 f2)
  ultimately show ?thesis
    by (simp add: frame_sum_def block_sum_def)
qed

text \<open>
  C8, as the code has it. For every byte sequence of at least five bytes (a header and a
  trailer, with or without payload), \<open>checkFrame\<close> returns \<open>FRAMEGOOD\<close> exactly when the
  sum of the frame-size byte, the sequence byte and the payload bytes, reduced modulo
  \<open>MODULO\<close>, equals the carried checksum byte, the first byte is the start marker and the
  last byte is the end marker; otherwise it returns \<open>FRAMEBAD\<close>. The frame-size byte
  enters the checksum only: it is not compared with the number of bytes received.
  Sequences of fewer than five bytes are not covered by this statement.
\<close>

theorem checkFrame_accepts_iff:
  assumes "5 \<le> length frameRx"
  shows "checkFrame frameRx =
           Some (if (uint (frameRx ! FRSPOS) + uint (frameRx ! SEQNUMPOS)
                       + block_sum (take (length frameRx - 5) (drop 3 frameRx))) mod MODULO
                      = uint (frameRx ! (length frameRx - 2))
                    \<and> frameRx ! 0 = STARTBYTE \<and> frameRx ! (length frameRx - 1) = ENDBYTE
                 then FRAMEGOOD else FRAMEBAD)"
proof -
  have "2 \<le> length frameRx" using assms by simp
  from checkFrame_eq [OF this] show ?thesis
    unfolding frame_sum_parts [OF assms]
    by (simp add: FRSPOS_def SEQNUMPOS_def MODULO_def STARTBYTE_def ENDBYTE_def)
qed

theorem checkFrame_accepts_iff_witness:
  "5 \<le> length [212, 8, 7, 1, 2, 3, 21, 204 :: byte_t]
   \<and> checkFrame [212, 8, 7, 1, 2, 3, 21, 204] = Some FRAMEGOOD
   \<and> 5 \<le> length [212, 8, 7, 1, 2, 3, 22, 204 :: byte_t]
   \<and> checkFrame [212, 8, 7, 1, 2, 3, 22, 204] = Some FRAMEBAD
   \<and> 5 \<le> length [212, 6, 0, 6, 204 :: byte_t]
   \<and> checkFrame [212, 6, 0, 6, 204] = Some FRAMEGOOD"
proof -
  have h: "5 \<le> length [212, 8, 7, 1, 2, 3, 21, 204 :: byte_t]"
    "5 \<le> length [212, 8, 7, 1, 2, 3, 22, 204 :: byte_t]"
    "5 \<le> length [212, 6, 0, 6, 204 :: byte_t]"
    by simp_all
  show ?thesis
    using checkFrame_accepts_iff [OF h(1)] checkFrame_accepts_iff [OF h(2)]
      checkFrame_accepts_iff [OF h(3)]
    by (simp add: block_sum_def FRSPOS_def SEQNUMPOS_def MODULO_def STARTBYTE_def ENDBYTE_def)
qed

text \<open>
  Five bytes with a consistent checksum and both markers whose frame-size byte says 6:
  \<open>checkFrame\<close> accepts them.
\<close>

theorem checkFrame_size_byte_counterexample:
  "checkFrame [212, 6, 0, 6, 204] = Some FRAMEGOOD
   \<and> uint ([212, 6, 0, 6, 204 :: byte_t] ! FRSPOS) \<noteq> int (length [212, 6, 0, 6, 204 :: byte_t])"
  by code_simp

section \<open>Every call returns\<close>

text \<open>
  With a \<^verbatim>\<open>getFrame\<close> that keeps its contract no read falls outside a frame: each pass
  of either loop has a result, and since the loops stop after \<open>MAX_TRIES\<close> attempts, so
  has each call of \<open>LL_send\<close> and \<open>LL_receive\<close>.
\<close>

lemma checkFrame_defined:
  assumes "2 \<le> length frameRx"
  shows "checkFrame frameRx = Some FRAMEGOOD \<or> checkFrame frameRx = Some FRAMEBAD"
  using checkFrame_eq [OF assms] by (simp split: if_splits)

lemma send_body_defined:
  assumes "getFrame_contract tr"
  shows "\<exists>x st'. send_body tr frameTx sizeTXframe debug st = Some (x, st')"
proof (cases "getFrame tr (nGetFrame st) (2 * ACK_SIZE)")
  case RxFail
  then show ?thesis by (simp add: send_body_def Let_def)
next
  case RxTimeout
  then show ?thesis by (simp add: send_body_def Let_def)
next
  case (RxFrame f)
  then have "2 \<le> length f" using assms by (auto simp add: getFrame_contract_def)
  from checkFrame_defined [OF this] RxFrame show ?thesis
    by (auto simp add: send_body_def Let_def)
qed

lemma send_loop_defined:
  assumes "getFrame_contract tr"
  shows "\<exists>x st'. send_loop tr frameTx sizeTXframe debug st attempts = Some (x, st')"
proof (induction "nat (MAX_TRIES - attempts)" arbitrary: st attempts rule: less_induct)
  case less
  obtain y st1 where b: "send_body tr frameTx sizeTXframe debug st = Some (y, st1)"
    using send_body_defined [OF assms] by blast
  show ?case
  proof (cases "y = Test False \<and> attempts + 1 < MAX_TRIES")
    case True
    then have "nat (MAX_TRIES - (attempts + 1)) < nat (MAX_TRIES - attempts)" by simp
    then obtain x st' where
      "send_loop tr frameTx sizeTXframe debug st1 (attempts + 1) = Some (x, st')"
      using less.hyps by blast
    with b True show ?thesis
      by (subst send_loop.simps) simp
  next
    case False
    with b show ?thesis
      by (subst send_loop.simps) (auto split: step.splits)
  qed
qed

lemma LL_send_defined:
  assumes "getFrame_contract tr"
  shows "\<exists>r st'. LL_send tr dataTx debug st = Some (r, st')"
proof -
  obtain frameTx sizeTXframe where b: "buildDataFrame dataTx (seqNumTx st) = (frameTx, sizeTXframe)"
    by (cases "buildDataFrame dataTx (seqNumTx st)")
  obtain x st1 where "send_loop tr frameTx sizeTXframe debug st 0 = Some (x, st1)"
    using send_loop_defined [OF assms] by blast
  with b show ?thesis
    by (cases x) (simp_all add: LL_send_def Let_def)
qed

lemma receive_body_defined:
  assumes "getFrame_contract tr"
  shows "\<exists>x st' n' d'. receive_body tr maxData debug expected st nRXdata dataRx
           = Some (x, st', n', d')"
proof (cases "getFrame tr (nGetFrame st) (3 * MAX_BLK)")
  case RxFail
  then show ?thesis by (simp add: receive_body_def Let_def)
next
  case RxTimeout
  then show ?thesis by (simp add: receive_body_def Let_def)
next
  case (RxFrame f)
  then have "2 \<le> length f" using assms by (auto simp add: getFrame_contract_def)
  from checkFrame_defined [OF this] show ?thesis
  proof
    assume g: "checkFrame f = Some FRAMEGOOD"
    from processFrame_good [OF g, of maxData] obtain n1 d1 where
      "processFrame f maxData = Some (n1, d1, uint (f ! SEQNUMPOS))" by blast
    with RxFrame g show ?thesis
      by (simp add: receive_body_def Let_def FRAMEGOOD_def FRAMEBAD_def)
  next
    assume "checkFrame f = Some FRAMEBAD"
    with RxFrame show ?thesis
      by (simp add: receive_body_def Let_def)
  qed
qed

lemma receive_loop_defined:
  assumes "getFrame_contract tr"
  shows "\<exists>x st' n' d'. receive_loop tr maxData debug expected st nRXdata dataRx attempts
           = Some (x, st', n', d')"
proof (induction "nat (MAX_TRIES - attempts)" arbitrary: st nRXdata dataRx attempts
    rule: less_induct)
  case less
  obtain y st1 n1 d1 where
    b: "receive_body tr maxData debug expected st nRXdata dataRx = Some (y, st1, n1, d1)"
    using receive_body_defined [OF assms] by blast
  show ?case
  proof (cases "y = Test False \<and> attempts + 1 < MAX_TRIES")
    case True
    then have "nat (MAX_TRIES - (attempts + 1)) < nat (MAX_TRIES - attempts)" by simp
    then obtain x st' n' d' where
      "receive_loop tr maxData debug expected st1 n1 d1 (attempts + 1) = Some (x, st', n', d')"
      using less.hyps by blast
    with b True show ?thesis
      by (subst receive_loop.simps) simp
  next
    case False
    with b show ?thesis
      by (subst receive_loop.simps) (auto split: step.splits)
  qed
qed

lemma LL_receive_defined:
  assumes "getFrame_contract tr"
  shows "\<exists>r d st'. LL_receive tr maxData debug st = Some (r, d, st')"
proof -
  obtain x st1 n1 d1 where
    "receive_loop tr maxData debug (next (lastSeqRx st)) st 0 [] 0 = Some (x, st1, n1, d1)"
    using receive_loop_defined [OF assms] by blast
  then show ?thesis
    by (cases x) (simp_all add: LL_receive_def Let_def)
qed

section \<open>Sending: refused calls\<close>

text \<open>
  C6. A call of \<open>LL_send\<close> while not connected, or with a block of more than \<open>MAX_BLK\<close>
  bytes, returns \<open>BADUSE\<close> and leaves the whole state as it was: nothing is handed to
  \<^verbatim>\<open>PHY_send\<close> (\<open>phySent\<close> is unchanged) and no counter changes. A call of
  \<open>LL_receive\<close> while not connected returns \<open>BADUSE\<close>, also with the state unchanged.
\<close>

theorem badUse_without_transport:
  "((\<not> connected st \<or> int (length dataTx) > MAX_BLK)
      \<longrightarrow> LL_send tr dataTx debug st = Some (BADUSE, st))
   \<and> (\<not> connected st \<longrightarrow> LL_receive tr maxData debug st = Some (BADUSE, [], st))"
  by (simp add: LL_send_def LL_receive_def Let_def)

theorem badUse_without_transport_witness:
  "\<not> connected start_state
   \<and> LL_send (scripted []) [1, 2, 3] 0 start_state = Some (BADUSE, start_state)
   \<and> LL_receive (scripted []) 16 0 start_state = Some (BADUSE, [], start_state)
   \<and> connected connected_state \<and> int (length (replicate 201 (0 :: byte_t))) > MAX_BLK
   \<and> LL_send (scripted []) (replicate 201 0) 0 connected_state = Some (BADUSE, connected_state)"
proof -
  have h: "\<not> connected start_state" "connected connected_state"
    "int (length (replicate 201 (0 :: byte_t))) > MAX_BLK"
    by (simp_all add: start_state_def connected_state_def MAX_BLK_def)
  show ?thesis
    using h badUse_without_transport [of start_state "[1, 2, 3]" "scripted []" 0 16]
      badUse_without_transport [of connected_state "replicate 201 0" "scripted []" 0 16]
    by simp
qed

section \<open>Sending: the loop\<close>

lemma send_body_timeout:
  assumes "PHY_send tr (length (phySent st)) frameTx = int (length frameTx)"
    and "getFrame tr (nGetFrame st) (2 * ACK_SIZE) = RxTimeout"
    and "debug \<noteq> SIMPLE"
  shows "send_body tr frameTx (int (length frameTx)) debug st =
           Some (Test False, st\<lparr>phySent := phySent st @ [frameTx],
                                 framesSent := framesSent st + 1,
                                 nGetFrame := nGetFrame st + 1,
                                 timeouts := timeouts st + 1\<rparr>)"
  using assms by (simp add: send_body_def Let_def)

lemma send_loop_silent:
  assumes ok: "\<And>k bytes. PHY_send tr k bytes = int (length bytes)"
    and silent: "\<And>k m. getFrame tr k m = RxTimeout"
    and mode: "debug \<noteq> SIMPLE"
  shows "attempts + int (Suc n) = MAX_TRIES \<Longrightarrow>
         send_loop tr frameTx (int (length frameTx)) debug st attempts =
           Some (Test False, st\<lparr>phySent := phySent st @ replicate (Suc n) frameTx,
                                 framesSent := framesSent st + int (Suc n),
                                 nGetFrame := nGetFrame st + Suc n,
                                 timeouts := timeouts st + int (Suc n)\<rparr>)"
proof (induction n arbitrary: st attempts)
  case 0
  then show ?case
    by (subst send_loop.simps) (simp add: send_body_timeout ok silent mode)
next
  case (Suc n)
  let ?st1 = "st\<lparr>phySent := phySent st @ [frameTx], framesSent := framesSent st + 1,
                   nGetFrame := nGetFrame st + 1, timeouts := timeouts st + 1\<rparr>"
  have "attempts + 1 + int (Suc n) = MAX_TRIES" using Suc.prems by simp
  then have ih: "send_loop tr frameTx (int (length frameTx)) debug ?st1 (attempts + 1) =
           Some (Test False, ?st1\<lparr>phySent := phySent ?st1 @ replicate (Suc n) frameTx,
                                 framesSent := framesSent ?st1 + int (Suc n),
                                 nGetFrame := nGetFrame ?st1 + Suc n,
                                 timeouts := timeouts ?st1 + int (Suc n)\<rparr>)"
    by (rule Suc.IH)
  have lt: "attempts + 1 < MAX_TRIES" using Suc.prems by simp
  show ?case
    using ih by (subst send_loop.simps) (simp add: send_body_timeout ok silent mode lt)
qed

text \<open>
  C4. In a connected state, for a block of at most \<open>MAX_BLK\<close> bytes, in normal mode
  (\<open>debug\<close> is not \<open>SIMPLE\<close>, so the sender waits for responses), with a physical layer
  that takes every frame whole and a peer that never responds (every call of
  \<^verbatim>\<open>getFrame\<close> times out), \<open>LL_send\<close> returns \<open>GIVEUP\<close> after exactly \<open>MAX_TRIES\<close>
  transmissions: \<open>phySent\<close> has grown by \<open>MAX_TRIES\<close> copies of the frame, and
  \<open>framesSent\<close>, \<open>timeouts\<close> and the number of waits by \<open>MAX_TRIES\<close> each; nothing
  else has changed.
\<close>

theorem giveup_after_max_tries:
  assumes "connected st" and "int (length dataTx) \<le> MAX_BLK" and "debug \<noteq> SIMPLE"
    and "\<And>k bytes. PHY_send tr k bytes = int (length bytes)"
    and "\<And>k m. getFrame tr k m = RxTimeout"
  shows "LL_send tr dataTx debug st =
           Some (GIVEUP,
                 st\<lparr>phySent := phySent st
                         @ replicate (nat MAX_TRIES) (fst (buildDataFrame dataTx (seqNumTx st))),
                     framesSent := framesSent st + MAX_TRIES,
                     nGetFrame := nGetFrame st + nat MAX_TRIES,
                     timeouts := timeouts st + MAX_TRIES\<rparr>)"
proof -
  obtain frameTx sizeTXframe where b: "buildDataFrame dataTx (seqNumTx st) = (frameTx, sizeTXframe)"
    by (cases "buildDataFrame dataTx (seqNumTx st)")
  then have sz: "sizeTXframe = int (length frameTx)"
    by (auto simp add: buildDataFrame_eq)
  have "0 + int (Suc 4) = MAX_TRIES" by (simp add: MAX_TRIES_def)
  then have "send_loop tr frameTx (int (length frameTx)) debug st 0 =
           Some (Test False, st\<lparr>phySent := phySent st @ replicate (Suc 4) frameTx,
                                 framesSent := framesSent st + int (Suc 4),
                                 nGetFrame := nGetFrame st + Suc 4,
                                 timeouts := timeouts st + int (Suc 4)\<rparr>)"
    using assms(4,5,3) by (intro send_loop_silent)
  then show ?thesis
    using assms(1,2) b sz by (simp add: LL_send_def Let_def MAX_TRIES_def)
qed


theorem giveup_after_max_tries_witness:
  "connected connected_state \<and> int (length [1, 2, 3 :: byte_t]) \<le> MAX_BLK \<and> (0::int) \<noteq> SIMPLE
   \<and> (\<forall>k bytes. PHY_send (scripted []) k bytes = int (length bytes))
   \<and> (\<forall>k m. getFrame (scripted []) k m = RxTimeout)
   \<and> LL_send (scripted []) [1, 2, 3] 0 connected_state =
         Some (GIVEUP,
               connected_state\<lparr>phySent := replicate 5 [212, 8, 0, 1, 2, 3, 14, 204],
                 framesSent := 5, nGetFrame := 5, timeouts := 5\<rparr>)"
proof -
  have h: "connected connected_state" "int (length [1, 2, 3 :: byte_t]) \<le> MAX_BLK"
    "(0::int) \<noteq> SIMPLE"
    by (simp_all add: connected_state_def MAX_BLK_def SIMPLE_def)
  have p: "\<And>k bytes. PHY_send (scripted []) k bytes = int (length bytes)"
    and g: "\<And>k m. getFrame (scripted []) k m = RxTimeout"
    by (simp_all add: scripted_def)
  have e: "fst (buildDataFrame [1, 2, 3] 0) = [212, 8, 0, 1, 2, 3, 14, 204]"
    by (simp add: buildDataFrame_eq block_sum_def STARTBYTE_def ENDBYTE_def signed_modulo_int_def)
  have s: "seqNumTx connected_state = 0" "phySent connected_state = []"
    "framesSent connected_state = 0" "nGetFrame connected_state = 0"
    "timeouts connected_state = 0"
    by (simp_all add: connected_state_def start_state_def)
  show ?thesis
    using h p g giveup_after_max_tries [OF h p g]
    by (simp add: e s MAX_TRIES_def)
qed

section \<open>Sending: the sequence counter\<close>

lemma send_body_seqNumTx:
  "send_body tr frameTx sizeTXframe debug st = Some (x, st') \<Longrightarrow> seqNumTx st' = seqNumTx st"
  by (auto simp add: send_body_def Let_def split: if_splits rx_result.splits option.splits)

lemma send_body_Return:
  "send_body tr frameTx sizeTXframe debug st = Some (Return c, st') \<Longrightarrow> c = FAILURE"
  by (auto simp add: send_body_def Let_def split: if_splits rx_result.splits option.splits)

lemma send_loop_last_pass:
  assumes step: "\<And>st x st'. P st \<Longrightarrow>
                   send_body tr frameTx sizeTXframe debug st = Some (x, st') \<Longrightarrow> P st'"
    and "P st"
    and "send_loop tr frameTx sizeTXframe debug st attempts = Some (x, st')"
  shows "\<exists>st0. P st0 \<and> send_body tr frameTx sizeTXframe debug st0 = Some (x, st')"
  using assms(2,3)
proof (induction "nat (MAX_TRIES - attempts)" arbitrary: st attempts rule: less_induct)
  case less
  from less.prems(2) obtain y st1 where
    b: "send_body tr frameTx sizeTXframe debug st = Some (y, st1)" and
    r: "(case y of Return c \<Rightarrow> Some (Return c, st1)
         | Test success \<Rightarrow>
             if \<not> success \<and> attempts + 1 < MAX_TRIES
             then send_loop tr frameTx sizeTXframe debug st1 (attempts + 1)
             else Some (Test success, st1)) = Some (x, st')"
    by (subst (asm) send_loop.simps) (auto split: option.splits)
  have p1: "P st1" using less.prems(1) b by (rule step)
  show ?case
  proof (cases "y = Test False \<and> attempts + 1 < MAX_TRIES")
    case True
    then have "send_loop tr frameTx sizeTXframe debug st1 (attempts + 1) = Some (x, st')"
      using r by simp
    moreover have "nat (MAX_TRIES - (attempts + 1)) < nat (MAX_TRIES - attempts)"
      using True by simp
    ultimately show ?thesis using less.hyps p1 by blast
  next
    case False
    then have "x = y \<and> st' = st1"
      using r by (auto split: step.splits if_splits)
    then show ?thesis using less.prems(1) b by blast
  qed
qed

lemma send_loop_seqNumTx:
  assumes "send_loop tr frameTx sizeTXframe debug st attempts = Some (x, st')"
  shows "seqNumTx st' = seqNumTx st"
proof -
  have "\<exists>st0. seqNumTx st0 = seqNumTx st
           \<and> send_body tr frameTx sizeTXframe debug st0 = Some (x, st')"
    using _ _ assms
    by (rule send_loop_last_pass [where P = "\<lambda>s. seqNumTx s = seqNumTx st"])
       (simp_all add: send_body_seqNumTx)
  then show ?thesis by (auto dest: send_body_seqNumTx)
qed

lemma send_loop_Return:
  assumes "send_loop tr frameTx sizeTXframe debug st attempts = Some (Return c, st')"
  shows "c = FAILURE"
proof -
  have "\<exists>st0. True \<and> send_body tr frameTx sizeTXframe debug st0 = Some (Return c, st')"
    using _ _ assms by (rule send_loop_last_pass [where P = "\<lambda>s. True"]) simp_all
  then show ?thesis by (auto dest: send_body_Return)
qed

lemma LL_send_cases:
  assumes "LL_send tr dataTx debug st = Some (r, st')"
  shows "(r = SUCCESS \<and> seqNumTx st' = next (seqNumTx st))
       \<or> (r \<in> {BADUSE, FAILURE, GIVEUP} \<and> seqNumTx st' = seqNumTx st)"
proof -
  obtain frameTx sizeTXframe where b: "buildDataFrame dataTx (seqNumTx st) = (frameTx, sizeTXframe)"
    by (cases "buildDataFrame dataTx (seqNumTx st)")
  show ?thesis
  proof (cases "\<not> connected st \<or> int (length dataTx) > MAX_BLK")
    case True
    with assms show ?thesis by (auto simp add: LL_send_def Let_def split: if_splits)
  next
    case False
    with assms b obtain x st1 where
      l: "send_loop tr frameTx sizeTXframe debug st 0 = Some (x, st1)"
      and r: "(r, st') = (case x of Return c \<Rightarrow> (c, st1)
                 | Test success \<Rightarrow> if success then (SUCCESS, st1\<lparr>seqNumTx := next (seqNumTx st1)\<rparr>)
                                     else (GIVEUP, st1))"
      by (auto simp add: LL_send_def Let_def split: option.splits step.splits if_splits)
    have sq: "seqNumTx st1 = seqNumTx st" using l by (rule send_loop_seqNumTx)
    show ?thesis
    proof (cases x)
      case (Return c)
      with l have "c = FAILURE" by (simp add: send_loop_Return)
      with r Return sq show ?thesis by simp
    next
      case (Test success)
      with r sq show ?thesis by (cases success) simp_all
    qed
  qed
qed

lemma next_in_range:
  assumes "0 \<le> s" and "s < MOD_SEQNUM"
  shows "next s = (s + 1) mod MOD_SEQNUM"
  using assms by (simp add: next_def MOD_SEQNUM_def smod_nonneg)

lemma LL_send_all_success:
  assumes "LL_send_all tr calls st = Some (rs, st')" and "\<forall>r \<in> set rs. r = SUCCESS"
    and "0 \<le> seqNumTx st" and "seqNumTx st < MOD_SEQNUM"
  shows "seqNumTx st' = (seqNumTx st + int (length calls)) mod MOD_SEQNUM"
  using assms
proof (induction calls arbitrary: st rs)
  case Nil
  then show ?case by (simp add: MOD_SEQNUM_def)
next
  case (Cons c calls)
  obtain dataTx debug where c: "c = (dataTx, debug)" by (cases c)
  from Cons.prems(1) c obtain r st1 rs1 where
    s1: "LL_send tr dataTx debug st = Some (r, st1)"
    and s2: "LL_send_all tr calls st1 = Some (rs1, st')" and rs: "rs = r # rs1"
    by (auto split: option.splits)
  from rs Cons.prems(2) have r: "r = SUCCESS" and rs1: "\<forall>r \<in> set rs1. r = SUCCESS" by simp_all
  from LL_send_cases [OF s1] r have "seqNumTx st1 = next (seqNumTx st)"
    by (auto simp add: SUCCESS_def BADUSE_def FAILURE_def GIVEUP_def)
  then have n: "seqNumTx st1 = (seqNumTx st + 1) mod MOD_SEQNUM"
    using Cons.prems(3,4) by (simp add: next_in_range)
  then have "0 \<le> seqNumTx st1" "seqNumTx st1 < MOD_SEQNUM"
    by (simp_all add: MOD_SEQNUM_def)
  with Cons.IH [OF s2 rs1] have "seqNumTx st' = (seqNumTx st1 + int (length calls)) mod MOD_SEQNUM"
    by simp
  then show ?case
    unfolding n by (simp add: mod_simps add_ac)
qed

text \<open>
  C5. Every call of \<open>LL_send\<close> returns one of \<open>SUCCESS\<close>, \<open>BADUSE\<close>, \<open>FAILURE\<close>,
  \<open>GIVEUP\<close>. When it returns \<open>SUCCESS\<close>, \<open>seqNumTx\<close> has become \<open>next seqNumTx\<close>, which
  is \<open>(seqNumTx + 1) mod MOD_SEQNUM\<close> for a sequence number in range; on every other
  return value \<open>seqNumTx\<close> is unchanged. Consequently \<open>MOD_SEQNUM\<close> consecutive calls that
  all return \<open>SUCCESS\<close>, from a state whose \<open>seqNumTx\<close> is in range (as \<open>LL_connect\<close>
  sets it), bring \<open>seqNumTx\<close> back to its initial value. A call does return whenever
  \<^verbatim>\<open>getFrame\<close> keeps its contract.
\<close>

theorem seqNumTx_advances_on_success_only:
  "(LL_send tr dataTx debug st = Some (r, st') \<longrightarrow>
      r \<in> {SUCCESS, BADUSE, FAILURE, GIVEUP}
      \<and> (r = SUCCESS \<longrightarrow> seqNumTx st' = next (seqNumTx st)
                        \<and> (0 \<le> seqNumTx st \<and> seqNumTx st < MOD_SEQNUM \<longrightarrow>
                               seqNumTx st' = (seqNumTx st + 1) mod MOD_SEQNUM))
      \<and> (r \<noteq> SUCCESS \<longrightarrow> seqNumTx st' = seqNumTx st))
   \<and> (LL_send_all tr calls st = Some (rs, st'') \<and> length calls = nat MOD_SEQNUM
        \<and> (\<forall>r \<in> set rs. r = SUCCESS) \<and> 0 \<le> seqNumTx st \<and> seqNumTx st < MOD_SEQNUM
      \<longrightarrow> seqNumTx st'' = seqNumTx st)
   \<and> (getFrame_contract tr \<longrightarrow> (\<exists>r st'. LL_send tr dataTx debug st = Some (r, st')))"
proof (intro conjI impI)
  assume "getFrame_contract tr"
  then show "\<exists>r st'. LL_send tr dataTx debug st = Some (r, st')"
    by (rule LL_send_defined)
next
  assume a: "LL_send tr dataTx debug st = Some (r, st')"
  from LL_send_cases [OF a] show "r \<in> {SUCCESS, BADUSE, FAILURE, GIVEUP}" by auto
  from LL_send_cases [OF a] show "r \<noteq> SUCCESS \<Longrightarrow> seqNumTx st' = seqNumTx st" by auto
  assume "r = SUCCESS"
  with LL_send_cases [OF a] show n: "seqNumTx st' = next (seqNumTx st)"
    by (auto simp add: SUCCESS_def BADUSE_def FAILURE_def GIVEUP_def)
  assume "0 \<le> seqNumTx st \<and> seqNumTx st < MOD_SEQNUM"
  then show "seqNumTx st' = (seqNumTx st + 1) mod MOD_SEQNUM"
    unfolding n by (simp add: next_in_range)
next
  assume a: "LL_send_all tr calls st = Some (rs, st'') \<and> length calls = nat MOD_SEQNUM
        \<and> (\<forall>r \<in> set rs. r = SUCCESS) \<and> 0 \<le> seqNumTx st \<and> seqNumTx st < MOD_SEQNUM"
  then have "seqNumTx st'' = (seqNumTx st + int (length calls)) mod MOD_SEQNUM"
    by (intro LL_send_all_success [of tr calls st rs]) simp_all
  with a show "seqNumTx st'' = seqNumTx st"
    by (simp add: MOD_SEQNUM_def)
qed


theorem seqNumTx_advances_on_success_only_witness:
  "getFrame_contract (scripted [RxFrame (ackFrame 0)])
   \<and> LL_send (scripted [RxFrame (ackFrame 0)]) [1, 2, 3] 0 connected_state =
        Some (SUCCESS, connected_state\<lparr>seqNumTx := 1, framesSent := 1, acksRx := 1,
                goodFrames := 1, phySent := [[212, 8, 0, 1, 2, 3, 14, 204]], nGetFrame := 1\<rparr>)
   \<and> 0 \<le> seqNumTx connected_state \<and> seqNumTx connected_state < MOD_SEQNUM
   \<and> next (seqNumTx connected_state) = 1
   \<and> LL_send (scripted []) [1, 2, 3] 0 connected_state =
        Some (GIVEUP, connected_state\<lparr>framesSent := 5, timeouts := 5,
                phySent := replicate 5 [212, 8, 0, 1, 2, 3, 14, 204], nGetFrame := 5\<rparr>)
   \<and> GIVEUP \<noteq> SUCCESS
   \<and> LL_send_all (scripted (map (\<lambda>k. RxFrame (ackFrame (int k))) [0..<16]))
           (replicate 16 ([1, 2, 3], 0)) connected_state =
        Some (replicate 16 SUCCESS,
              connected_state\<lparr>seqNumTx := 0, framesSent := 16, acksRx := 16, goodFrames := 16,
                phySent := map (\<lambda>k. fst (buildDataFrame [1, 2, 3] (int k))) [0..<16],
                nGetFrame := 16\<rparr>)
   \<and> length (replicate 16 ([1, 2, 3 :: byte_t], 0 :: int)) = nat MOD_SEQNUM
   \<and> set (replicate 16 SUCCESS) = {SUCCESS}
   \<and> seqNumTx (connected_state\<lparr>seqNumTx := 0, framesSent := 16, acksRx := 16, goodFrames := 16,
                phySent := map (\<lambda>k. fst (buildDataFrame [1, 2, 3] (int k))) [0..<16],
                nGetFrame := 16\<rparr>) = seqNumTx connected_state"
proof -
  let ?S1 = "connected_state\<lparr>seqNumTx := 1, framesSent := 1, acksRx := 1,
                goodFrames := 1, phySent := [[212, 8, 0, 1, 2, 3, 14, 204]], nGetFrame := 1\<rparr>"
  let ?S2 = "connected_state\<lparr>framesSent := 5, timeouts := 5,
                phySent := replicate 5 [212, 8, 0, 1, 2, 3, 14, 204], nGetFrame := 5\<rparr>"
  let ?S16 = "connected_state\<lparr>seqNumTx := 0, framesSent := 16, acksRx := 16, goodFrames := 16,
                phySent := map (\<lambda>k. fst (buildDataFrame [1, 2, 3] (int k))) [0..<16],
                nGetFrame := 16\<rparr>"
  let ?T16 = "scripted (map (\<lambda>k. RxFrame (ackFrame (int k))) [0..<16])"
  let ?C = "replicate 16 ([1, 2, 3 :: byte_t], 0 :: int)"
  have e1: "LL_send (scripted [RxFrame (ackFrame 0)]) [1, 2, 3] 0 connected_state
              = Some (SUCCESS, ?S1)"
    by code_simp
  have e2: "LL_send (scripted []) [1, 2, 3] 0 connected_state = Some (GIVEUP, ?S2)"
    by code_simp
  have e3: "LL_send_all ?T16 ?C connected_state = Some (replicate 16 SUCCESS, ?S16)"
    by code_simp
  have r: "0 \<le> seqNumTx connected_state" "seqNumTx connected_state < MOD_SEQNUM"
    by (simp_all add: connected_state_def start_state_def MOD_SEQNUM_def)
  have g: "GIVEUP \<noteq> SUCCESS" by (simp add: GIVEUP_def SUCCESS_def)
  have l: "length ?C = nat MOD_SEQNUM" "\<forall>r \<in> set (replicate 16 SUCCESS). r = SUCCESS"
    by (simp_all add: MOD_SEQNUM_def)
  have c1: "seqNumTx ?S1 = next (seqNumTx connected_state)"
    using seqNumTx_advances_on_success_only
      [of "scripted [RxFrame (ackFrame 0)]" "[1, 2, 3]" 0 connected_state SUCCESS ?S1] e1
    by blast
  have c2: "seqNumTx ?S2 = seqNumTx connected_state"
    using seqNumTx_advances_on_success_only
      [of "scripted []" "[1, 2, 3]" 0 connected_state GIVEUP ?S2] e2 g
    by blast
  have c3: "seqNumTx ?S16 = seqNumTx connected_state"
    using seqNumTx_advances_on_success_only
      [of ?T16 "[]" 0 connected_state 0 connected_state ?C "replicate 16 SUCCESS" ?S16] e3 r l
    by blast
  have n: "next (seqNumTx connected_state) = 1"
    using c1 by simp
  have l': "set (replicate 16 SUCCESS) = {SUCCESS}" by simp
  have k: "getFrame_contract (scripted [RxFrame (ackFrame 0)])"
    by (auto simp add: getFrame_contract_def scripted_def ackFrame_def Let_def split: if_splits)
  show ?thesis
    using k e1 e2 e3 r g l(1) l' n c3 by blast
qed

section \<open>Sending: classifying the response\<close>

lemma send_body_response:
  assumes "debug \<noteq> SIMPLE"
    and "PHY_send tr (length (phySent st)) (take (nat sizeTXframe) frameTx) = sizeTXframe"
    and "getFrame tr (nGetFrame st) (2 * ACK_SIZE) = RxFrame frameAck"
    and "checkFrame frameAck = Some chk"
  shows "send_body tr frameTx sizeTXframe debug st =
     (let st1 = st\<lparr>phySent := phySent st @ [take (nat sizeTXframe) frameTx],
                      framesSent := framesSent st + 1, nGetFrame := nGetFrame st + 1\<rparr>
      in if chk = FRAMEGOOD then
           if uint (frameAck ! SEQNUMPOS) = seqNumTx st
           then Some (Test True, st1\<lparr>goodFrames := goodFrames st + 1, acksRx := acksRx st + 1\<rparr>)
           else Some (Test False, st1\<lparr>goodFrames := goodFrames st + 1, naksRx := naksRx st + 1\<rparr>)
         else Some (Test False, st1\<lparr>badFrames := badFrames st + 1\<rparr>))"
  using assms by (simp add: send_body_def Let_def)

lemma send_body_phySent:
  "send_body tr frameTx sizeTXframe debug st = Some (x, st')
     \<Longrightarrow> phySent st' = phySent st @ [take (nat sizeTXframe) frameTx]"
  by (auto simp add: send_body_def Let_def split: if_splits rx_result.splits option.splits)

lemma send_loop_phySent:
  assumes "send_loop tr frameTx sizeTXframe debug st attempts = Some (x, st')"
  shows "\<exists>n. phySent st' = phySent st @ replicate (Suc n) (take (nat sizeTXframe) frameTx)"
proof -
  let ?fr = "take (nat sizeTXframe) frameTx"
  let ?P = "\<lambda>s. \<exists>n. phySent s = phySent st @ replicate n ?fr"
  have step: "\<And>s y s'. ?P s \<Longrightarrow> send_body tr frameTx sizeTXframe debug s = Some (y, s') \<Longrightarrow> ?P s'"
  proof -
    fix s y s'
    assume "?P s" and b: "send_body tr frameTx sizeTXframe debug s = Some (y, s')"
    then obtain n where "phySent s = phySent st @ replicate n ?fr" by blast
    with send_body_phySent [OF b] have "phySent s' = phySent st @ replicate (Suc n) ?fr"
      by (simp add: replicate_append_same)
    then show "?P s'" by blast
  qed
  have "?P st" by (rule exI [of _ 0]) simp
  with step have "\<exists>st0. ?P st0 \<and> send_body tr frameTx sizeTXframe debug st0 = Some (x, st')"
    using assms by (rule send_loop_last_pass [where P = ?P])
  then obtain st0 n where "phySent st0 = phySent st @ replicate n ?fr"
    and "send_body tr frameTx sizeTXframe debug st0 = Some (x, st')" by blast
  then have "phySent st' = phySent st @ replicate (Suc n) ?fr"
    using send_body_phySent [of tr frameTx sizeTXframe debug st0 x st']
    by (simp add: replicate_append_same)
  then show ?thesis by blast
qed

text \<open>
  C7. One pass of the loop of \<open>LL_send\<close> in normal mode, when the frame was sent whole
  and a response \<open>frameAck\<close> arrived. If the response passes \<open>checkFrame\<close> and carries
  the sequence number just sent, the loop ends with \<open>success\<close> set, and \<open>goodFrames\<close> and
  \<open>acksRx\<close> have each grown by one. If the response fails the check, \<open>badFrames\<close> has
  grown by one; if it passes but carries another sequence number, \<open>naksRx\<close> (and
  \<open>goodFrames\<close>) has grown by one; in both cases the loop goes round again with the same
  \<open>frameTx\<close> while fewer than \<open>MAX_TRIES\<close> attempts were made, and ends without success
  otherwise. Every transmission of the loop hands the same bytes to \<^verbatim>\<open>PHY_send\<close>, and
  \<open>seqNumTx\<close> does not change inside the loop. No other counter changes in the pass
  apart from \<open>framesSent\<close>, which counts the transmission.
\<close>

theorem send_response_classified:
  assumes "debug \<noteq> SIMPLE"
    and "PHY_send tr (length (phySent st)) (take (nat sizeTXframe) frameTx) = sizeTXframe"
    and "getFrame tr (nGetFrame st) (2 * ACK_SIZE) = RxFrame frameAck"
    and "checkFrame frameAck = Some chk"
  shows "send_loop tr frameTx sizeTXframe debug st attempts =
     (let st1 = st\<lparr>phySent := phySent st @ [take (nat sizeTXframe) frameTx],
                      framesSent := framesSent st + 1, nGetFrame := nGetFrame st + 1\<rparr>
      in if chk = FRAMEGOOD \<and> uint (frameAck ! SEQNUMPOS) = seqNumTx st
         then Some (Test True, st1\<lparr>goodFrames := goodFrames st + 1, acksRx := acksRx st + 1\<rparr>)
         else
           let st2 = (if chk = FRAMEGOOD
                      then st1\<lparr>goodFrames := goodFrames st + 1, naksRx := naksRx st + 1\<rparr>
                      else st1\<lparr>badFrames := badFrames st + 1\<rparr>)
           in if attempts + 1 < MAX_TRIES
              then send_loop tr frameTx sizeTXframe debug st2 (attempts + 1)
              else Some (Test False, st2))
   \<and> (\<forall>x st'. send_loop tr frameTx sizeTXframe debug st attempts = Some (x, st') \<longrightarrow>
         seqNumTx st' = seqNumTx st
         \<and> (\<exists>n. phySent st' = phySent st @ replicate (Suc n) (take (nat sizeTXframe) frameTx)))"
proof
  show "send_loop tr frameTx sizeTXframe debug st attempts =
     (let st1 = st\<lparr>phySent := phySent st @ [take (nat sizeTXframe) frameTx],
                      framesSent := framesSent st + 1, nGetFrame := nGetFrame st + 1\<rparr>
      in if chk = FRAMEGOOD \<and> uint (frameAck ! SEQNUMPOS) = seqNumTx st
         then Some (Test True, st1\<lparr>goodFrames := goodFrames st + 1, acksRx := acksRx st + 1\<rparr>)
         else
           let st2 = (if chk = FRAMEGOOD
                      then st1\<lparr>goodFrames := goodFrames st + 1, naksRx := naksRx st + 1\<rparr>
                      else st1\<lparr>badFrames := badFrames st + 1\<rparr>)
           in if attempts + 1 < MAX_TRIES
              then send_loop tr frameTx sizeTXframe debug st2 (attempts + 1)
              else Some (Test False, st2))"
    by (subst send_loop.simps) (simp add: send_body_response [OF assms] Let_def)
  show "\<forall>x st'. send_loop tr frameTx sizeTXframe debug st attempts = Some (x, st') \<longrightarrow>
         seqNumTx st' = seqNumTx st
         \<and> (\<exists>n. phySent st' = phySent st @ replicate (Suc n) (take (nat sizeTXframe) frameTx))"
    using send_loop_seqNumTx send_loop_phySent by blast
qed


theorem send_response_classified_witness:
  "(0::int) \<noteq> SIMPLE
   \<and> PHY_send (scripted [RxFrame [212, 5, 0, 5, 204]]) (length (phySent connected_state))
         (take (nat 8) [212, 8, 0, 1, 2, 3, 14, 204]) = 8
   \<and> getFrame (scripted [RxFrame [212, 5, 0, 5, 204]]) (nGetFrame connected_state) (2 * ACK_SIZE)
         = RxFrame [212, 5, 0, 5, 204]
   \<and> checkFrame [212, 5, 0, 5, 204] = Some FRAMEGOOD
   \<and> send_loop (scripted [RxFrame [212, 5, 0, 5, 204]]) [212, 8, 0, 1, 2, 3, 14, 204] 8 0
         connected_state 0
       = Some (Test True, connected_state\<lparr>phySent := [[212, 8, 0, 1, 2, 3, 14, 204]],
                 framesSent := 1, nGetFrame := 1, goodFrames := 1, acksRx := 1\<rparr>)
   \<and> PHY_send (scripted [RxFrame [212, 5, 0, 6, 204]]) (length (phySent connected_state))
         (take (nat 8) [212, 8, 0, 1, 2, 3, 14, 204]) = 8
   \<and> getFrame (scripted [RxFrame [212, 5, 0, 6, 204]]) (nGetFrame connected_state) (2 * ACK_SIZE)
         = RxFrame [212, 5, 0, 6, 204]
   \<and> checkFrame [212, 5, 0, 6, 204] = Some FRAMEBAD
   \<and> send_loop (scripted [RxFrame [212, 5, 0, 6, 204]]) [212, 8, 0, 1, 2, 3, 14, 204] 8 0
         connected_state 4
       = Some (Test False, connected_state\<lparr>phySent := [[212, 8, 0, 1, 2, 3, 14, 204]],
                 framesSent := 1, nGetFrame := 1, badFrames := 1\<rparr>)
   \<and> PHY_send (scripted [RxFrame [212, 5, 3, 8, 204]]) (length (phySent connected_state))
         (take (nat 8) [212, 8, 0, 1, 2, 3, 14, 204]) = 8
   \<and> getFrame (scripted [RxFrame [212, 5, 3, 8, 204]]) (nGetFrame connected_state) (2 * ACK_SIZE)
         = RxFrame [212, 5, 3, 8, 204]
   \<and> checkFrame [212, 5, 3, 8, 204] = Some FRAMEGOOD
   \<and> send_loop (scripted [RxFrame [212, 5, 3, 8, 204]]) [212, 8, 0, 1, 2, 3, 14, 204] 8 0
         connected_state 4
       = Some (Test False, connected_state\<lparr>phySent := [[212, 8, 0, 1, 2, 3, 14, 204]],
                 framesSent := 1, nGetFrame := 1, goodFrames := 1, naksRx := 1\<rparr>)"
proof -
  let ?F = "[212, 8, 0, 1, 2, 3, 14, 204] :: byte_t list"
  let ?A = "[212, 5, 0, 5, 204] :: byte_t list"
  let ?B = "[212, 5, 0, 6, 204] :: byte_t list"
  let ?N = "[212, 5, 3, 8, 204] :: byte_t list"
  have m: "(0::int) \<noteq> SIMPLE" by (simp add: SIMPLE_def)
  have s: "phySent connected_state = []" "nGetFrame connected_state = 0"
    "seqNumTx connected_state = 0" "framesSent connected_state = 0"
    "goodFrames connected_state = 0" "badFrames connected_state = 0"
    "acksRx connected_state = 0" "naksRx connected_state = 0"
    by (simp_all add: connected_state_def start_state_def)
  have pa: "PHY_send (scripted [RxFrame ?A]) (length (phySent connected_state)) (take (nat 8) ?F) = 8"
    and ga: "getFrame (scripted [RxFrame ?A]) (nGetFrame connected_state) (2 * ACK_SIZE) = RxFrame ?A"
    and pb: "PHY_send (scripted [RxFrame ?B]) (length (phySent connected_state)) (take (nat 8) ?F) = 8"
    and gb: "getFrame (scripted [RxFrame ?B]) (nGetFrame connected_state) (2 * ACK_SIZE) = RxFrame ?B"
    and pn: "PHY_send (scripted [RxFrame ?N]) (length (phySent connected_state)) (take (nat 8) ?F) = 8"
    and gn: "getFrame (scripted [RxFrame ?N]) (nGetFrame connected_state) (2 * ACK_SIZE) = RxFrame ?N"
    by (simp_all add: scripted_def s)
  have ca: "checkFrame ?A = Some FRAMEGOOD" and cb: "checkFrame ?B = Some FRAMEBAD"
    and cn: "checkFrame ?N = Some FRAMEGOOD"
    by code_simp+
  have ra: "send_loop (scripted [RxFrame ?A]) ?F 8 0 connected_state 0
       = Some (Test True, connected_state\<lparr>phySent := [?F],
                 framesSent := 1, nGetFrame := 1, goodFrames := 1, acksRx := 1\<rparr>)"
    using send_response_classified [OF m pa ga ca, of 0]
    by (simp add: s SEQNUMPOS_def)
  have rb: "send_loop (scripted [RxFrame ?B]) ?F 8 0 connected_state 4
       = Some (Test False, connected_state\<lparr>phySent := [?F],
                 framesSent := 1, nGetFrame := 1, badFrames := 1\<rparr>)"
    using send_response_classified [OF m pb gb cb, of 4]
    by (simp add: s SEQNUMPOS_def FRAMEGOOD_def FRAMEBAD_def MAX_TRIES_def)
  have rn: "send_loop (scripted [RxFrame ?N]) ?F 8 0 connected_state 4
       = Some (Test False, connected_state\<lparr>phySent := [?F],
                 framesSent := 1, nGetFrame := 1, goodFrames := 1, naksRx := 1\<rparr>)"
    using send_response_classified [OF m pn gn cn, of 4]
    by (simp add: s SEQNUMPOS_def MAX_TRIES_def)
  show ?thesis
    using m pa ga ca ra pb gb cb rb pn gn cn rn by blast
qed

section \<open>Receiving: duplicates\<close>

text \<open>
  C1. The claim is that a well-formed frame whose sequence number equals \<open>lastSeqRx\<close> (a
  duplicate of the block accepted last) is acknowledged again but not delivered a second
  time, the loop going on to wait for the next block. The duplicate branch of
  \<open>LL_receive\<close> sets \<open>success\<close>, so the loop ends and the call returns the block. Here
  the peer sends block 0 with the payload 1, 2, 3 and, its acknowledgement being lost,
  sends the same frame again: the first call of \<open>LL_receive\<close> returns the three bytes
  and sets \<open>lastSeqRx\<close> to 0; the second call, from the state the first one left,
  acknowledges sequence 0 again and returns the same three bytes once more.
\<close>

theorem duplicate_block_delivered_again:
  "LL_receive (scripted [RxFrame [212, 8, 0, 1, 2, 3, 14, 204], RxFrame [212, 8, 0, 1, 2, 3, 14, 204]])
       16 0 connected_state
     = Some (3, [1, 2, 3],
             connected_state\<lparr>lastSeqRx := 0, acksSent := 1, goodFrames := 1,
               phySent := [[212, 5, 0, 5, 204]], nGetFrame := 1\<rparr>)
   \<and> LL_receive (scripted [RxFrame [212, 8, 0, 1, 2, 3, 14, 204], RxFrame [212, 8, 0, 1, 2, 3, 14, 204]])
       16 0
       (connected_state\<lparr>lastSeqRx := 0, acksSent := 1, goodFrames := 1,
               phySent := [[212, 5, 0, 5, 204]], nGetFrame := 1\<rparr>)
     = Some (3, [1, 2, 3],
             connected_state\<lparr>lastSeqRx := 0, acksSent := 2, goodFrames := 2,
               phySent := [[212, 5, 0, 5, 204], [212, 5, 0, 5, 204]], nGetFrame := 2\<rparr>)"
  by code_simp

section \<open>Receiving: the loop\<close>

lemma sendAck_state:
  "snd (sendAck tr POSACK seq st) =
     st\<lparr>phySent := phySent st @ [ackFrame seq],
        acksSent := acksSent st
          + (if PHY_send tr (length (phySent st)) (ackFrame seq) = 5 then 1 else 0)\<rparr>"
  by (simp add: sendAck_def Let_def)

lemma receive_body_lastSeqRx:
  assumes "receive_body tr maxData debug expected st nRXdata dataRx = Some (Test False, st', n', d')"
  shows "lastSeqRx st' = lastSeqRx st"
proof (cases "getFrame tr (nGetFrame st) (3 * MAX_BLK)")
  case RxFail
  with assms show ?thesis by (simp add: receive_body_def Let_def)
next
  case RxTimeout
  with assms show ?thesis by (auto simp add: receive_body_def Let_def)
next
  case (RxFrame frameRx)
  with assms show ?thesis
    by (auto simp add: receive_body_def Let_def sendAck_state
        split: option.splits if_splits prod.splits)
qed







section \<open>No negative acknowledgement is ever sent\<close>

lemma receive_body_acks:
  assumes "receive_body tr maxData debug expected st nRXdata dataRx = Some (x, st', n', d')"
  shows "naksSent st' = naksSent st
       \<and> ((phySent st' = phySent st \<and> acksSent st' = acksSent st)
          \<or> (\<exists>seq. phySent st' = phySent st @ [ackFrame seq]
                   \<and> acksSent st' = acksSent st
                        + (if PHY_send tr (length (phySent st)) (ackFrame seq) = 5 then 1 else 0)))"
proof (cases "getFrame tr (nGetFrame st) (3 * MAX_BLK)")
  case RxFail
  with assms show ?thesis by (auto simp add: receive_body_def Let_def)
next
  case RxTimeout
  with assms show ?thesis by (auto simp add: receive_body_def Let_def)
next
  case (RxFrame frameRx)
  show ?thesis
  proof (cases "checkFrame frameRx")
    case None
    with assms RxFrame show ?thesis by (simp add: receive_body_def Let_def)
  next
    case (Some chk)
    show ?thesis
    proof (cases "chk = FRAMEBAD")
      case True
      with assms RxFrame Some show ?thesis
        by (cases "debug = SIMPLE") (auto simp add: receive_body_def Let_def)
    next
      case False
      show ?thesis
      proof (cases "processFrame frameRx maxData")
        case None
        with assms RxFrame Some False show ?thesis by (simp add: receive_body_def Let_def)
      next
        case p: (Some res)
        obtain n1 d1 q where res: "res = (n1, d1, q)" by (cases res)
        let ?st2 = "st\<lparr>nGetFrame := nGetFrame st + 1, goodFrames := goodFrames st + 1\<rparr>"
        from assms RxFrame Some False p res
        have "st' = ?st2 \<or> st' = snd (sendAck tr POSACK q (?st2\<lparr>lastSeqRx := q\<rparr>))
              \<or> st' = snd (sendAck tr POSACK (lastSeqRx st) ?st2)"
          by (simp add: receive_body_def Let_def split: if_splits)
        then show ?thesis
          unfolding sendAck_state
          by (elim disjE) (simp, (rule conjI, simp, rule disjI2, rule exI, simp)+)
      qed
    qed
  qed
qed

lemma receive_body_naksSent:
  "receive_body tr maxData debug expected st nRXdata dataRx = Some (x, st', n', d')
     \<Longrightarrow> naksSent st' = naksSent st"
  using receive_body_acks by blast

lemma receive_loop_last_pass:
  assumes step: "\<And>st n d x st' n' d'. P st \<Longrightarrow>
                   receive_body tr maxData debug expected st n d = Some (x, st', n', d') \<Longrightarrow> P st'"
    and "P st"
    and "receive_loop tr maxData debug expected st nRXdata dataRx attempts = Some (x, st', n', d')"
  shows "\<exists>st0 n0 d0. P st0
           \<and> receive_body tr maxData debug expected st0 n0 d0 = Some (x, st', n', d')"
  using assms(2,3)
proof (induction "nat (MAX_TRIES - attempts)" arbitrary: st nRXdata dataRx attempts rule: less_induct)
  case less
  from less.prems(2) obtain y st1 n1 d1 where
    b: "receive_body tr maxData debug expected st nRXdata dataRx = Some (y, st1, n1, d1)" and
    r: "(case y of Return c \<Rightarrow> Some (Return c, st1, n1, d1)
         | Test success \<Rightarrow>
             if \<not> success \<and> attempts + 1 < MAX_TRIES
             then receive_loop tr maxData debug expected st1 n1 d1 (attempts + 1)
             else Some (Test success, st1, n1, d1)) = Some (x, st', n', d')"
    by (subst (asm) receive_loop.simps) (auto split: option.splits)
  have p1: "P st1" using less.prems(1) b by (rule step)
  show ?case
  proof (cases "y = Test False \<and> attempts + 1 < MAX_TRIES")
    case True
    then have "receive_loop tr maxData debug expected st1 n1 d1 (attempts + 1)
                 = Some (x, st', n', d')"
      using r by simp
    moreover have "nat (MAX_TRIES - (attempts + 1)) < nat (MAX_TRIES - attempts)"
      using True by simp
    ultimately show ?thesis using less.hyps p1 by blast
  next
    case False
    then have "x = y \<and> st' = st1 \<and> n' = n1 \<and> d' = d1"
      using r by (auto split: step.splits if_splits)
    then show ?thesis using less.prems(1) b by blast
  qed
qed

lemma receive_loop_naksSent:
  assumes "receive_loop tr maxData debug expected st nRXdata dataRx attempts = Some (x, st', n', d')"
  shows "naksSent st' = naksSent st"
proof -
  have "\<exists>st0 n0 d0. naksSent st0 = naksSent st
           \<and> receive_body tr maxData debug expected st0 n0 d0 = Some (x, st', n', d')"
    using _ _ assms
    by (rule receive_loop_last_pass [where P = "\<lambda>s. naksSent s = naksSent st"])
       (simp_all add: receive_body_naksSent)
  then show ?thesis by (auto dest: receive_body_naksSent)
qed

lemma LL_receive_naksSent:
  assumes "LL_receive tr maxData debug st = Some (r, d, st')"
  shows "naksSent st' = naksSent st"
proof (cases "connected st")
  case False
  with assms show ?thesis by (simp add: LL_receive_def Let_def)
next
  case True
  with assms obtain x n where
    "receive_loop tr maxData debug (next (lastSeqRx st)) st 0 [] 0 = Some (x, st', n, d)"
    by (auto simp add: LL_receive_def Let_def split: option.splits step.splits if_splits)
  then show ?thesis by (rule receive_loop_naksSent)
qed

lemma send_body_naksSent:
  "send_body tr frameTx sizeTXframe debug st = Some (x, st') \<Longrightarrow> naksSent st' = naksSent st"
  by (auto simp add: send_body_def Let_def split: if_splits rx_result.splits option.splits)

lemma send_loop_naksSent:
  assumes "send_loop tr frameTx sizeTXframe debug st attempts = Some (x, st')"
  shows "naksSent st' = naksSent st"
proof -
  have "\<exists>st0. naksSent st0 = naksSent st
           \<and> send_body tr frameTx sizeTXframe debug st0 = Some (x, st')"
    using _ _ assms
    by (rule send_loop_last_pass [where P = "\<lambda>s. naksSent s = naksSent st"])
       (simp_all add: send_body_naksSent)
  then show ?thesis by (auto dest: send_body_naksSent)
qed

lemma LL_send_naksSent:
  assumes "LL_send tr dataTx debug st = Some (r, st')"
  shows "naksSent st' = naksSent st"
proof (cases "\<not> connected st \<or> int (length dataTx) > MAX_BLK")
  case True
  with assms show ?thesis by (auto simp add: LL_send_def Let_def split: if_splits)
next
  case False
  obtain frameTx sizeTXframe where b: "buildDataFrame dataTx (seqNumTx st) = (frameTx, sizeTXframe)"
    by (cases "buildDataFrame dataTx (seqNumTx st)")
  with False assms obtain x st1 where
    l: "send_loop tr frameTx sizeTXframe debug st 0 = Some (x, st1)"
    and "naksSent st' = naksSent st1"
    by (auto simp add: LL_send_def Let_def split: option.splits step.splits if_splits)
  with send_loop_naksSent [OF l] show ?thesis by simp
qed

lemma do_call_naksSent:
  assumes "do_call tr c st = Some st'" and "naksSent st = 0"
  shows "naksSent st' = 0"
proof (cases c)
  case Connect
  with assms show ?thesis by (auto simp add: LL_connect_def Let_def)
next
  case Discon
  with assms show ?thesis by (auto simp add: LL_discon_def Let_def)
next
  case (Send dataTx debug)
  with assms show ?thesis by (auto dest: LL_send_naksSent)
next
  case (Receive maxData debug)
  with assms show ?thesis by (auto dest: LL_receive_naksSent)
qed

lemma ll_run_naksSent:
  "ll_run tr calls st = Some st' \<Longrightarrow> naksSent st = 0 \<Longrightarrow> naksSent st' = 0"
proof (induction calls arbitrary: st)
  case Nil
  then show ?case by simp
next
  case (Cons c calls)
  from Cons.prems(1) obtain st1 where c: "do_call tr c st = Some st1"
    and r: "ll_run tr calls st1 = Some st'"
    by (auto split: option.splits)
  from do_call_naksSent [OF c Cons.prems(2)] have "naksSent st1 = 0" .
  with Cons.IH [OF r] show ?case .
qed

text \<open>
  C10. The receiver never sends a negative acknowledgement. A call of \<open>LL_receive\<close>
  leaves \<open>naksSent\<close> as it was. In each pass of its loop, either nothing is handed to
  \<^verbatim>\<open>PHY_send\<close>, or one acknowledgement frame is, and then \<open>acksSent\<close> grows by one
  when the frame was sent whole: every acknowledgement is counted as positive. A frame
  that fails \<open>checkFrame\<close> in normal mode causes no transmission at all (only the
  wait and \<open>badFrames\<close> are counted). And after a successful \<open>LL_connect\<close>, whatever
  calls of the module follow, \<open>naksSent\<close> is 0. A call of \<open>LL_receive\<close> does return
  whenever \<^verbatim>\<open>getFrame\<close> keeps its contract.
\<close>

theorem no_nak_ever_sent:
  "(LL_receive tr maxData debug st = Some (r, d, st') \<longrightarrow> naksSent st' = naksSent st)
   \<and> (receive_body tr maxData debug expected st nRXdata dataRx = Some (x, st1, n1, d1) \<longrightarrow>
        naksSent st1 = naksSent st
        \<and> ((phySent st1 = phySent st \<and> acksSent st1 = acksSent st)
           \<or> (\<exists>seq. phySent st1 = phySent st @ [ackFrame seq]
                    \<and> acksSent st1 = acksSent st
                         + (if PHY_send tr (length (phySent st)) (ackFrame seq) = 5 then 1 else 0))))
   \<and> (debug \<noteq> SIMPLE \<and> getFrame tr (nGetFrame st) (3 * MAX_BLK) = RxFrame frameRx
        \<and> checkFrame frameRx = Some FRAMEBAD \<longrightarrow>
        receive_body tr maxData debug expected st nRXdata dataRx
          = Some (Test False,
                  st\<lparr>nGetFrame := nGetFrame st + 1, badFrames := badFrames st + 1\<rparr>,
                  nRXdata, dataRx))
   \<and> (fst (LL_connect tr st) = SUCCESS \<and> ll_run tr calls (snd (LL_connect tr st)) = Some st2 \<longrightarrow>
        naksSent st2 = 0)
   \<and> (getFrame_contract tr \<longrightarrow> (\<exists>r d st'. LL_receive tr maxData debug st = Some (r, d, st')))"
proof (intro conjI impI)
  assume "getFrame_contract tr"
  then show "\<exists>r d st'. LL_receive tr maxData debug st = Some (r, d, st')"
    by (rule LL_receive_defined)
next
  assume "LL_receive tr maxData debug st = Some (r, d, st')"
  then show "naksSent st' = naksSent st" by (rule LL_receive_naksSent)
next
  assume a: "receive_body tr maxData debug expected st nRXdata dataRx = Some (x, st1, n1, d1)"
  from receive_body_acks [OF a] show "naksSent st1 = naksSent st" by blast
  from receive_body_acks [OF a]
  show "(phySent st1 = phySent st \<and> acksSent st1 = acksSent st)
           \<or> (\<exists>seq. phySent st1 = phySent st @ [ackFrame seq]
                    \<and> acksSent st1 = acksSent st
                         + (if PHY_send tr (length (phySent st)) (ackFrame seq) = 5 then 1 else 0))"
    by blast
next
  assume "debug \<noteq> SIMPLE \<and> getFrame tr (nGetFrame st) (3 * MAX_BLK) = RxFrame frameRx
        \<and> checkFrame frameRx = Some FRAMEBAD"
  then show "receive_body tr maxData debug expected st nRXdata dataRx
          = Some (Test False,
                  st\<lparr>nGetFrame := nGetFrame st + 1, badFrames := badFrames st + 1\<rparr>,
                  nRXdata, dataRx)"
    by (simp add: receive_body_def Let_def)
next
  assume a: "fst (LL_connect tr st) = SUCCESS \<and> ll_run tr calls (snd (LL_connect tr st)) = Some st2"
  then have "naksSent (snd (LL_connect tr st)) = 0"
    by (auto simp add: LL_connect_def Let_def SUCCESS_def split: if_splits)
  with a show "naksSent st2 = 0" by (blast intro: ll_run_naksSent)
qed


theorem no_nak_ever_sent_witness:
  "getFrame_contract (scripted [RxFrame [212, 8, 0, 1, 2, 3, 14, 204]])
   \<and> LL_receive (scripted [RxFrame [212, 8, 0, 1, 2, 3, 14, 204]]) 16 0 connected_state
     = Some (3, [1, 2, 3],
             connected_state\<lparr>lastSeqRx := 0, acksSent := 1, goodFrames := 1,
               phySent := [[212, 5, 0, 5, 204]], nGetFrame := 1\<rparr>)
   \<and> naksSent (connected_state\<lparr>lastSeqRx := 0, acksSent := 1, goodFrames := 1,
               phySent := [[212, 5, 0, 5, 204]], nGetFrame := 1\<rparr>) = naksSent connected_state
   \<and> receive_body (scripted [RxFrame [212, 8, 0, 1, 2, 3, 14, 204]]) 16 0 0 connected_state 0 []
     = Some (Test True,
             connected_state\<lparr>lastSeqRx := 0, acksSent := 1, goodFrames := 1,
               phySent := [[212, 5, 0, 5, 204]], nGetFrame := 1\<rparr>,
             3, [1, 2, 3])
   \<and> (0::int) \<noteq> SIMPLE
   \<and> getFrame (scripted [RxFrame [212, 5, 0, 6, 204]]) (nGetFrame connected_state) (3 * MAX_BLK)
     = RxFrame [212, 5, 0, 6, 204]
   \<and> checkFrame [212, 5, 0, 6, 204] = Some FRAMEBAD
   \<and> receive_body (scripted [RxFrame [212, 5, 0, 6, 204]]) 16 0 0 connected_state 0 []
     = Some (Test False, connected_state\<lparr>nGetFrame := 1, badFrames := 1\<rparr>, 0, [])
   \<and> fst (LL_connect (scripted [RxFrame [212, 8, 0, 1, 2, 3, 14, 204], RxFrame [212, 5, 0, 5, 204]])
          start_state) = SUCCESS
   \<and> ll_run (scripted [RxFrame [212, 8, 0, 1, 2, 3, 14, 204], RxFrame [212, 5, 0, 5, 204]])
        [Receive 16 0, Send [7] 0, Discon]
        (snd (LL_connect (scripted [RxFrame [212, 8, 0, 1, 2, 3, 14, 204], RxFrame [212, 5, 0, 5, 204]])
               start_state))
     = Some (start_state\<lparr>seqNumTx := 1, framesSent := 1, acksSent := 1, acksRx := 1,
               goodFrames := 2, phySent := [[212, 5, 0, 5, 204], [212, 6, 0, 7, 13, 204]],
               nGetFrame := 2\<rparr>)
   \<and> naksSent (start_state\<lparr>seqNumTx := 1, framesSent := 1, acksSent := 1, acksRx := 1,
               goodFrames := 2, phySent := [[212, 5, 0, 5, 204], [212, 6, 0, 7, 13, 204]],
               nGetFrame := 2\<rparr>) = 0"
proof -
  let ?D = "[212, 8, 0, 1, 2, 3, 14, 204] :: byte_t list"
  let ?B = "[212, 5, 0, 6, 204] :: byte_t list"
  let ?T = "scripted [RxFrame ?D, RxFrame [212, 5, 0, 5, 204]]"
  let ?S1 = "connected_state\<lparr>lastSeqRx := 0, acksSent := 1, goodFrames := 1,
               phySent := [[212, 5, 0, 5, 204]], nGetFrame := 1\<rparr>"
  let ?S2 = "start_state\<lparr>seqNumTx := 1, framesSent := 1, acksSent := 1, acksRx := 1,
               goodFrames := 2, phySent := [[212, 5, 0, 5, 204], [212, 6, 0, 7, 13, 204]],
               nGetFrame := 2\<rparr>"
  have e1: "LL_receive (scripted [RxFrame ?D]) 16 0 connected_state = Some (3, [1, 2, 3], ?S1)"
    by code_simp
  have e2: "receive_body (scripted [RxFrame ?D]) 16 0 0 connected_state 0 []
              = Some (Test True, ?S1, 3, [1, 2, 3])"
    by code_simp
  have m: "(0::int) \<noteq> SIMPLE" by (simp add: SIMPLE_def)
  have g: "getFrame (scripted [RxFrame ?B]) (nGetFrame connected_state) (3 * MAX_BLK) = RxFrame ?B"
    by (simp add: scripted_def connected_state_def start_state_def)
  have c: "checkFrame ?B = Some FRAMEBAD" by code_simp
  have o: "fst (LL_connect ?T start_state) = SUCCESS" by code_simp
  have r: "ll_run ?T [Receive 16 0, Send [7] 0, Discon] (snd (LL_connect ?T start_state)) = Some ?S2"
    by code_simp
  note t = no_nak_ever_sent
  have c1: "naksSent ?S1 = naksSent connected_state"
    using t [of "scripted [RxFrame ?D]" 16 0 connected_state 3 "[1, 2, 3]" ?S1] e1 by blast
  have c3: "receive_body (scripted [RxFrame ?B]) 16 0 0 connected_state 0 []
     = Some (Test False, connected_state\<lparr>nGetFrame := nGetFrame connected_state + 1,
               badFrames := badFrames connected_state + 1\<rparr>, 0, [])"
    using t [where tr = "scripted [RxFrame ?B]" and debug = 0 and st = connected_state
        and frameRx = ?B and maxData = 16 and expected = 0 and nRXdata = 0 and dataRx = "[]"]
      m g c by blast
  then have c3': "receive_body (scripted [RxFrame ?B]) 16 0 0 connected_state 0 []
     = Some (Test False, connected_state\<lparr>nGetFrame := 1, badFrames := 1\<rparr>, 0, [])"
    by (simp add: connected_state_def start_state_def)
  have c4: "naksSent ?S2 = 0"
    using t [where tr = ?T and st = start_state and calls = "[Receive 16 0, Send [7] 0, Discon]"
        and ?st2.0 = ?S2] o r by blast
  have k: "getFrame_contract (scripted [RxFrame ?D])"
    by (auto simp add: getFrame_contract_def scripted_def split: if_splits)
  show ?thesis
    using k e1 c1 e2 m g c c3' o r c4 by blast
qed

section \<open>The transmit sequence number stays in range\<close>

text \<open>
  \<open>LL_connect\<close> sets \<open>seqNumTx\<close> to 0, \<open>LL_send\<close> only ever replaces it by
  \<open>next seqNumTx\<close>, and nothing else writes it: in every state reached after a
  successful \<open>LL_connect\<close> it lies between 0 and \<open>MOD_SEQNUM - 1\<close>.
\<close>

lemma receive_body_seqNumTx:
  assumes "receive_body tr maxData debug expected st nRXdata dataRx = Some (x, st', n', d')"
  shows "seqNumTx st' = seqNumTx st"
proof (cases "getFrame tr (nGetFrame st) (3 * MAX_BLK)")
  case RxFail
  with assms show ?thesis by (auto simp add: receive_body_def Let_def)
next
  case RxTimeout
  with assms show ?thesis by (auto simp add: receive_body_def Let_def)
next
  case (RxFrame frameRx)
  with assms show ?thesis
    by (auto simp add: receive_body_def Let_def sendAck_state
        split: option.splits if_splits prod.splits)
qed

lemma receive_loop_seqNumTx:
  assumes "receive_loop tr maxData debug expected st nRXdata dataRx attempts = Some (x, st', n', d')"
  shows "seqNumTx st' = seqNumTx st"
proof -
  have "\<exists>st0 n0 d0. seqNumTx st0 = seqNumTx st
           \<and> receive_body tr maxData debug expected st0 n0 d0 = Some (x, st', n', d')"
    using _ _ assms
    by (rule receive_loop_last_pass [where P = "\<lambda>s. seqNumTx s = seqNumTx st"])
       (simp_all add: receive_body_seqNumTx)
  then show ?thesis by (auto dest: receive_body_seqNumTx)
qed

lemma LL_receive_seqNumTx:
  assumes "LL_receive tr maxData debug st = Some (r, d, st')"
  shows "seqNumTx st' = seqNumTx st"
proof (cases "connected st")
  case False
  with assms show ?thesis by (simp add: LL_receive_def Let_def)
next
  case True
  with assms obtain x n where
    "receive_loop tr maxData debug (next (lastSeqRx st)) st 0 [] 0 = Some (x, st', n, d)"
    by (auto simp add: LL_receive_def Let_def split: option.splits step.splits if_splits)
  then show ?thesis by (rule receive_loop_seqNumTx)
qed

lemma do_call_seqNumTx_range:
  assumes "do_call tr c st = Some st'" and "0 \<le> seqNumTx st \<and> seqNumTx st < MOD_SEQNUM"
  shows "0 \<le> seqNumTx st' \<and> seqNumTx st' < MOD_SEQNUM"
proof (cases c)
  case Connect
  with assms show ?thesis by (auto simp add: LL_connect_def Let_def MOD_SEQNUM_def)
next
  case Discon
  with assms show ?thesis by (auto simp add: LL_discon_def Let_def)
next
  case (Send dataTx debug)
  with assms(1) obtain r where s: "LL_send tr dataTx debug st = Some (r, st')" by auto
  from LL_send_cases [OF s] assms(2) show ?thesis
    by (auto simp add: next_in_range MOD_SEQNUM_def)
next
  case (Receive maxData debug)
  with assms show ?thesis by (auto dest: LL_receive_seqNumTx)
qed

lemma ll_run_seqNumTx_range:
  "ll_run tr calls st = Some st' \<Longrightarrow> 0 \<le> seqNumTx st \<and> seqNumTx st < MOD_SEQNUM
     \<Longrightarrow> 0 \<le> seqNumTx st' \<and> seqNumTx st' < MOD_SEQNUM"
proof (induction calls arbitrary: st)
  case Nil
  then show ?case by simp
next
  case (Cons c calls)
  from Cons.prems(1) obtain st1 where c: "do_call tr c st = Some st1"
    and r: "ll_run tr calls st1 = Some st'"
    by (auto split: option.splits)
  from do_call_seqNumTx_range [OF c Cons.prems(2)] Cons.IH [OF r] show ?case by blast
qed

lemma connected_seqNumTx_range:
  assumes "fst (LL_connect tr st) = SUCCESS"
    and "ll_run tr calls (snd (LL_connect tr st)) = Some st'"
  shows "0 \<le> seqNumTx st' \<and> seqNumTx st' < MOD_SEQNUM"
proof -
  from assms(1) have "seqNumTx (snd (LL_connect tr st)) = 0"
    by (auto simp add: LL_connect_def Let_def SUCCESS_def split: if_splits)
  then have "0 \<le> seqNumTx (snd (LL_connect tr st)) \<and> seqNumTx (snd (LL_connect tr st)) < MOD_SEQNUM"
    by (simp add: MOD_SEQNUM_def)
  with assms(2) show ?thesis by (rule ll_run_seqNumTx_range)
qed

section \<open>The last accepted sequence number\<close>

text \<open>
  \<open>LL_connect\<close> sets \<open>lastSeqRx\<close> to -1, \<open>LL_receive\<close> replaces it only by the expected
  number \<open>next lastSeqRx\<close> (or by itself), and nothing else writes it: in every state
  reached after a successful \<open>LL_connect\<close> it is either -1 or lies between 0 and
  \<open>MOD_SEQNUM - 1\<close>.
\<close>

lemma receive_body_lastSeqRx_cases:
  assumes "receive_body tr maxData debug expected st nRXdata dataRx = Some (x, st', n', d')"
  shows "lastSeqRx st' = lastSeqRx st \<or> lastSeqRx st' = expected"
proof (cases "getFrame tr (nGetFrame st) (3 * MAX_BLK)")
  case RxFail
  with assms show ?thesis by (auto simp add: receive_body_def Let_def)
next
  case RxTimeout
  with assms show ?thesis by (auto simp add: receive_body_def Let_def)
next
  case (RxFrame frameRx)
  with assms show ?thesis
    by (auto simp add: receive_body_def Let_def sendAck_state
        split: option.splits if_splits prod.splits)
qed

lemma LL_receive_lastSeqRx:
  assumes "LL_receive tr maxData debug st = Some (r, d, st')"
  shows "lastSeqRx st' = lastSeqRx st \<or> lastSeqRx st' = next (lastSeqRx st)"
proof (cases "connected st")
  case False
  with assms show ?thesis by (simp add: LL_receive_def Let_def)
next
  case True
  let ?P = "\<lambda>s. lastSeqRx s = lastSeqRx st \<or> lastSeqRx s = next (lastSeqRx st)"
  from True assms obtain x n where
    l: "receive_loop tr maxData debug (next (lastSeqRx st)) st 0 [] 0 = Some (x, st', n, d)"
    by (auto simp add: LL_receive_def Let_def split: option.splits step.splits if_splits)
  have step: "\<And>s n0 d0 y s' n1 d1. ?P s \<Longrightarrow>
      receive_body tr maxData debug (next (lastSeqRx st)) s n0 d0 = Some (y, s', n1, d1) \<Longrightarrow> ?P s'"
    using receive_body_lastSeqRx_cases by metis
  have "?P st" by simp
  with step have "\<exists>st0 n0 d0. ?P st0
           \<and> receive_body tr maxData debug (next (lastSeqRx st)) st0 n0 d0 = Some (x, st', n, d)"
    using l by (rule receive_loop_last_pass [where P = ?P])
  then show ?thesis using step by blast
qed

lemma send_body_lastSeqRx:
  "send_body tr frameTx sizeTXframe debug st = Some (x, st') \<Longrightarrow> lastSeqRx st' = lastSeqRx st"
  by (auto simp add: send_body_def Let_def split: if_splits rx_result.splits option.splits)

lemma LL_send_lastSeqRx:
  assumes "LL_send tr dataTx debug st = Some (r, st')"
  shows "lastSeqRx st' = lastSeqRx st"
proof (cases "\<not> connected st \<or> int (length dataTx) > MAX_BLK")
  case True
  with assms show ?thesis by (auto simp add: LL_send_def Let_def split: if_splits)
next
  case False
  obtain frameTx sizeTXframe where b: "buildDataFrame dataTx (seqNumTx st) = (frameTx, sizeTXframe)"
    by (cases "buildDataFrame dataTx (seqNumTx st)")
  with False assms obtain x st1 where
    l: "send_loop tr frameTx sizeTXframe debug st 0 = Some (x, st1)"
    and e: "lastSeqRx st' = lastSeqRx st1"
    by (auto simp add: LL_send_def Let_def split: option.splits step.splits if_splits)
  have "\<exists>st0. lastSeqRx st0 = lastSeqRx st
           \<and> send_body tr frameTx sizeTXframe debug st0 = Some (x, st1)"
    using _ _ l
    by (rule send_loop_last_pass [where P = "\<lambda>s. lastSeqRx s = lastSeqRx st"])
       (simp_all add: send_body_lastSeqRx)
  then have "lastSeqRx st1 = lastSeqRx st" by (auto dest: send_body_lastSeqRx)
  with e show ?thesis by simp
qed

lemma next_lastSeqRx_range:
  assumes "l = - 1 \<or> (0 \<le> l \<and> l < MOD_SEQNUM)"
  shows "0 \<le> next l \<and> next l < MOD_SEQNUM"
proof -
  from assms have "0 \<le> l + 1" by auto
  then have "next l = (l + 1) mod MOD_SEQNUM"
    by (simp add: next_def MOD_SEQNUM_def smod_nonneg)
  then show ?thesis by (simp add: MOD_SEQNUM_def)
qed

lemma do_call_lastSeqRx_range:
  assumes "do_call tr c st = Some st'"
    and "lastSeqRx st = - 1 \<or> (0 \<le> lastSeqRx st \<and> lastSeqRx st < MOD_SEQNUM)"
  shows "lastSeqRx st' = - 1 \<or> (0 \<le> lastSeqRx st' \<and> lastSeqRx st' < MOD_SEQNUM)"
proof (cases c)
  case Connect
  with assms(1) have "lastSeqRx st' = - 1 \<or> lastSeqRx st' = lastSeqRx st"
    by (cases "PHY_open tr = SUCCESS") (auto simp add: LL_connect_def Let_def)
  with assms(2) show ?thesis by auto
next
  case Discon
  with assms(1) have "lastSeqRx st' = lastSeqRx st"
    by (cases "PHY_close tr = SUCCESS") (auto simp add: LL_discon_def Let_def)
  with assms(2) show ?thesis by simp
next
  case (Send dataTx debug)
  with assms(1) obtain r where "LL_send tr dataTx debug st = Some (r, st')" by auto
  then have "lastSeqRx st' = lastSeqRx st" by (rule LL_send_lastSeqRx)
  with assms(2) show ?thesis by simp
next
  case (Receive maxData debug)
  with assms(1) obtain r d where "LL_receive tr maxData debug st = Some (r, d, st')" by auto
  then have "lastSeqRx st' = lastSeqRx st \<or> lastSeqRx st' = next (lastSeqRx st)"
    by (rule LL_receive_lastSeqRx)
  with assms(2) next_lastSeqRx_range [OF assms(2)] show ?thesis by auto
qed

lemma ll_run_lastSeqRx_range:
  "ll_run tr calls st = Some st' \<Longrightarrow>
     lastSeqRx st = - 1 \<or> (0 \<le> lastSeqRx st \<and> lastSeqRx st < MOD_SEQNUM) \<Longrightarrow>
     lastSeqRx st' = - 1 \<or> (0 \<le> lastSeqRx st' \<and> lastSeqRx st' < MOD_SEQNUM)"
proof (induction calls arbitrary: st)
  case Nil
  then show ?case by simp
next
  case (Cons c calls)
  from Cons.prems(1) obtain st1 where c: "do_call tr c st = Some st1"
    and r: "ll_run tr calls st1 = Some st'"
    by (auto split: option.splits)
  from do_call_lastSeqRx_range [OF c Cons.prems(2)] Cons.IH [OF r] show ?case by blast
qed

lemma connected_lastSeqRx_range:
  assumes "fst (LL_connect tr st) = SUCCESS"
    and "ll_run tr calls (snd (LL_connect tr st)) = Some st'"
  shows "lastSeqRx st' = - 1 \<or> (0 \<le> lastSeqRx st' \<and> lastSeqRx st' < MOD_SEQNUM)"
proof -
  from assms(1) have "lastSeqRx (snd (LL_connect tr st)) = - 1"
    by (auto simp add: LL_connect_def Let_def SUCCESS_def split: if_splits)
  then show ?thesis
    using ll_run_lastSeqRx_range [OF assms(2)] by blast
qed

end
